theory Spec2Isabelle
  imports Complex_Main "HOL-Library.Multiset" "HOL-Library.Product_Lexorder"
begin

section \<open>JavaScript numbers\<close>

text \<open>
  A JavaScript number is modelled as a real number, one of the two infinities, or NaN.
  NaN and the infinities have their IEEE behaviour, because the ranking code meets NaN
  through \<open>0 / 0\<close> and through arithmetic on \<open>undefined\<close>.  The operations of this section
  are exact on finite numbers; they serve where only the order of given scores matters.
  The rounding of double precision, and the operations that round, follow in the section
  on double-precision arithmetic.
\<close>

datatype jsnum = NaN | PInf | NInf | Num real

fun js_inf :: "bool \<Rightarrow> jsnum" where
  "js_inf True = PInf"
| "js_inf False = NInf"

fun js_neg :: "jsnum \<Rightarrow> jsnum" where
  "js_neg NaN = NaN"
| "js_neg PInf = NInf"
| "js_neg NInf = PInf"
| "js_neg (Num a) = Num (- a)"

fun js_add :: "jsnum \<Rightarrow> jsnum \<Rightarrow> jsnum" where
  "js_add NaN _ = NaN"
| "js_add _ NaN = NaN"
| "js_add (Num a) (Num b) = Num (a + b)"
| "js_add PInf NInf = NaN"
| "js_add NInf PInf = NaN"
| "js_add PInf _ = PInf"
| "js_add _ PInf = PInf"
| "js_add NInf _ = NInf"
| "js_add _ NInf = NInf"

definition js_sub :: "jsnum \<Rightarrow> jsnum \<Rightarrow> jsnum" where
  "js_sub a b = js_add a (js_neg b)"

fun js_mul :: "jsnum \<Rightarrow> jsnum \<Rightarrow> jsnum" where
  "js_mul NaN _ = NaN"
| "js_mul _ NaN = NaN"
| "js_mul (Num a) (Num b) = Num (a * b)"
| "js_mul (Num a) x = (if a = 0 then NaN else js_inf ((0 < a) = (x = PInf)))"
| "js_mul x (Num b) = (if b = 0 then NaN else js_inf ((0 < b) = (x = PInf)))"
| "js_mul x y = js_inf (x = y)"

text \<open>
  Division by a zero divisor takes the zero as \<open>+0\<close>: the only divisor in this program
  is a product of two square roots, which is never \<open>-0\<close>.
\<close>

fun js_div :: "jsnum \<Rightarrow> jsnum \<Rightarrow> jsnum" where
  "js_div NaN _ = NaN"
| "js_div _ NaN = NaN"
| "js_div (Num a) (Num b) =
     (if b = 0 then (if a = 0 then NaN else js_inf (0 < a)) else Num (a / b))"
| "js_div (Num a) _ = Num 0"
| "js_div x (Num b) = js_inf ((0 \<le> b) = (x = PInf))"
| "js_div _ _ = NaN"

fun js_sqrt :: "jsnum \<Rightarrow> jsnum" where
  "js_sqrt NaN = NaN"
| "js_sqrt PInf = PInf"
| "js_sqrt NInf = NaN"
| "js_sqrt (Num a) = (if a < 0 then NaN else Num (sqrt a))"

text \<open>\<open>a >= b\<close>: false as soon as one side is NaN.\<close>

fun js_ge :: "jsnum \<Rightarrow> jsnum \<Rightarrow> bool" where
  "js_ge NaN _ = False"
| "js_ge _ NaN = False"
| "js_ge (Num a) (Num b) = (b \<le> a)"
| "js_ge PInf _ = True"
| "js_ge _ NInf = True"
| "js_ge _ _ = False"


section \<open>Array.prototype.sort and Array.prototype.slice\<close>

text \<open>
  \<open>xs.sort(cmp)\<close> is a stable sort.  The comparator's result \<open>v\<close> is read as: \<open>v > 0\<close>
  puts the first argument after the second; \<open>v < 0\<close>, zero and NaN (which the language
  reads as \<open>+0\<close>) do not.  The model is the stable insertion sort; every stable sort
  returns the same list when the comparator is consistent.  For an inconsistent comparator
  (NaN against two different numbers) the language leaves the order to the implementation,
  and the model is one such order.
\<close>

fun js_pos :: "jsnum \<Rightarrow> bool" where
  "js_pos (Num a) = (0 < a)"
| "js_pos PInf = True"
| "js_pos _ = False"

fun js_insert :: "('a \<Rightarrow> 'a \<Rightarrow> jsnum) \<Rightarrow> 'a \<Rightarrow> 'a list \<Rightarrow> 'a list" where
  "js_insert cmp x [] = [x]"
| "js_insert cmp x (y # ys) =
     (if js_pos (cmp x y) then y # js_insert cmp x ys else x # y # ys)"

definition js_sort :: "('a \<Rightarrow> 'a \<Rightarrow> jsnum) \<Rightarrow> 'a list \<Rightarrow> 'a list" where
  "js_sort cmp xs = foldr (js_insert cmp) xs []"



text \<open>
  \<open>xs.slice(0, k)\<close> for an integer \<open>k\<close>: a negative \<open>k\<close> counts from the end.
\<close>

definition js_slice0 :: "'a list \<Rightarrow> int \<Rightarrow> 'a list" where
  "js_slice0 xs k = take (nat (if k < 0 then int (length xs) + k else k)) xs"

section \<open>The vector store (vectorStore.js)\<close>

record chunk_fields =
  id' :: string
  doc :: string
  chunkIndex :: int
  text' :: string

record chunk = chunk_fields +
  embedding :: "real list"

text \<open>
  A scored candidate: the object literal that \<open>topK\<close> builds, and later the spread copy
  with \<open>reRankScore\<close> added.  \<open>reRankScore = None\<close> stands for the absent property.
\<close>

record candidate = chunk_fields +
  score :: jsnum
  reRankScore :: "jsnum option"

text \<open>\<open>b[i]\<close> as a factor of a product: reading past the end gives \<open>undefined\<close>, which
  the multiplication turns into NaN.\<close>

definition js_index :: "real list \<Rightarrow> nat \<Rightarrow> jsnum" where
  "js_index b i = (if i < length b then Num (b ! i) else NaN)"

definition dot :: "real list \<Rightarrow> real list \<Rightarrow> jsnum" where
  "dot a b = foldl (\<lambda>s i. js_add s (js_mul (Num (a ! i)) (js_index b i))) (Num 0) [0..<length a]"

definition norm' :: "real list \<Rightarrow> jsnum" where
  "norm' a = js_sqrt (dot a a)"

definition cosine :: "real list \<Rightarrow> real list \<Rightarrow> jsnum" where
  "cosine a b = js_div (dot a b) (js_mul (norm' a) (norm' b))"

definition make_candidate :: "jsnum \<times> chunk \<Rightarrow> candidate" where
  "make_candidate s = \<lparr>id' = id' (snd s), doc = doc (snd s), chunkIndex = chunkIndex (snd s),
     text' = text' (snd s), score = fst s, reRankScore = None\<rparr>"

text \<open>\<open>topK\<close>; the module variable \<open>vectors\<close> is the first argument.\<close>

definition topK :: "chunk list \<Rightarrow> real list \<Rightarrow> int \<Rightarrow> candidate list" where
  "topK vectors queryEmb k =
     map make_candidate
       (js_slice0
          (js_sort (\<lambda>a b. js_sub (fst b) (fst a))
             (map (\<lambda>v. (cosine queryEmb (embedding v), v)) vectors))
          k)"





section \<open>Strings\<close>

text \<open>
  A JavaScript string is a sequence of UTF-16 code units.  The model covers the strings
  whose code units are all below 256, one \<open>char\<close> per code unit, so that \<open>length\<close> is the
  string's \<open>.length\<close>.
\<close>

text \<open>White space and line terminators below 256: TAB, LF, VT, FF, CR, SP, NBSP.\<close>

definition is_js_space :: "char \<Rightarrow> bool" where
  "is_js_space c = (of_char c \<in> {9, 10, 11, 12, 13, 32, 160 :: nat})"

definition trim :: "string \<Rightarrow> string" where
  "trim s = rev (dropWhile is_js_space (rev (dropWhile is_js_space s)))"

text \<open>\<open>toLowerCase\<close> below 256: A-Z, and the Latin-1 capitals 192-214 and 216-222.\<close>

definition toLowerCase_char :: "char \<Rightarrow> char" where
  "toLowerCase_char c =
     (let n = of_char c :: nat in
      if (65 \<le> n \<and> n \<le> 90) \<or> (192 \<le> n \<and> n \<le> 214) \<or> (216 \<le> n \<and> n \<le> 222)
      then char_of (n + 32) else c)"

definition toLowerCase :: "string \<Rightarrow> string" where
  "toLowerCase s = map toLowerCase_char s"

section \<open>The file-mention pattern\<close>

text \<open>
  \<open>q.match(/([a-zA-Z0-9_\-]+\.(txt|md|pdf))/i)\<close>.  Without the \<open>u\<close> flag, the \<open>i\<close> flag
  folds case on ASCII letters only (a code unit of 128 or more never folds to one below
  128), so the class is exactly the ASCII letters, digits, \<open>_\<close> and \<open>-\<close>.
\<close>

definition is_name_char :: "char \<Rightarrow> bool" where
  "is_name_char c =
     (let n = of_char c :: nat in
      (48 \<le> n \<and> n \<le> 57) \<or> (65 \<le> n \<and> n \<le> 90) \<or> (97 \<le> n \<and> n \<le> 122)
      \<or> c = CHR ''_'' \<or> c = CHR ''-'')"

definition ascii_lower :: "char \<Rightarrow> char" where
  "ascii_lower c =
     (let n = of_char c :: nat in if 65 \<le> n \<and> n \<le> 90 then char_of (n + 32) else c)"

text \<open>\<open>ci_prefix p s\<close>: the lower-case literal \<open>p\<close> matches at the start of \<open>s\<close>, ignoring case.\<close>

definition ci_prefix :: "string \<Rightarrow> string \<Rightarrow> bool" where
  "ci_prefix p s = (length p \<le> length s \<and> map ascii_lower (take (length p) s) = p)"

text \<open>The alternation \<open>(txt|md|pdf)\<close>, tried in this order; the result is the matched text.\<close>

definition match_ext :: "string \<Rightarrow> string option" where
  "match_ext r =
     (if ci_prefix ''txt'' r then Some (take 3 r)
      else if ci_prefix ''md'' r then Some (take 2 r)
      else if ci_prefix ''pdf'' r then Some (take 3 r)
      else None)"

text \<open>
  A match that starts at the head of \<open>s\<close>.  The \<open>+\<close> is greedy and takes the whole run of
  name characters; giving some back cannot help, since the next character would then be a
  name character and not the dot.
\<close>

definition match_at :: "string \<Rightarrow> string option" where
  "match_at s =
     (let name = takeWhile is_name_char s; rest = dropWhile is_name_char s in
      if name = [] then None
      else case rest of
             [] \<Rightarrow> None
           | c # r \<Rightarrow>
               if c = CHR ''.'' then map_option (\<lambda>e. name @ ''.'' @ e) (match_ext r)
               else None)"

text \<open>The leftmost match: capture group 1 of \<open>q.match(...)\<close>, or \<open>None\<close> for \<open>null\<close>.\<close>

fun regex_match :: "string \<Rightarrow> string option" where
  "regex_match [] = None"
| "regex_match (c # s) =
     (case match_at (c # s) of Some m \<Rightarrow> Some m | None \<Rightarrow> regex_match s)"

definition fileMention :: "string \<Rightarrow> string option" where
  "fileMention q = map_option toLowerCase (regex_match q)"

section \<open>Ranking (the /ask handler, steps 2 and 3)\<close>

text \<open>
  The boost loop updates \<open>rc.score\<close> in place; the model returns the updated list, which
  is the \<open>rawContexts\<close> that the filter and the fallback read afterwards.  The guard
  \<open>rc.doc && ...\<close> skips an empty \<open>doc\<close>.
\<close>

definition boost_one :: "string \<Rightarrow> candidate \<Rightarrow> candidate" where
  "boost_one filename rc =
     (if doc rc \<noteq> [] \<and> toLowerCase (doc rc) = filename
      then rc\<lparr>score := js_add (score rc) (Num 0.6)\<rparr> else rc)"

definition boost :: "string \<Rightarrow> candidate list \<Rightarrow> candidate list" where
  "boost q rawContexts =
     (case fileMention q of
        None \<Rightarrow> rawContexts
      | Some filename \<Rightarrow> map (boost_one filename) rawContexts)"

definition above_threshold :: "jsnum \<Rightarrow> candidate \<Rightarrow> bool" where
  "above_threshold thr c = js_ge (score c) thr"

definition filter_fallback :: "jsnum \<Rightarrow> candidate list \<Rightarrow> candidate list" where
  "filter_fallback thr rawContexts =
     (let candidates = filter (above_threshold thr) rawContexts in
      if length candidates = 0
      then js_slice0 rawContexts (min 3 (int (length rawContexts)))
      else candidates)"

text \<open>
  \<open>docCounts\<close> is a dictionary from \<open>doc\<close> to a count.  The \<open>doc\<close> values are source file
  names; a \<open>doc\<close> that is the name of a property that every object inherits (such as
  \<open>constructor\<close>) is treated in \<open>count_minus_one\<close>, in the double-precision pass below.
\<close>

definition docCounts :: "candidate list \<Rightarrow> (string \<rightharpoonup> nat)" where
  "docCounts cs =
     foldl (\<lambda>m c. m(doc c \<mapsto> (case m (doc c) of None \<Rightarrow> 0 | Some n \<Rightarrow> n) + 1)) Map.empty cs"

text \<open>A missing count or a missing \<open>reRankScore\<close> is \<open>undefined\<close>, hence NaN in arithmetic.\<close>

definition withReRank :: "(string \<rightharpoonup> nat) \<Rightarrow> candidate \<Rightarrow> candidate" where
  "withReRank counts c =
     c\<lparr>reRankScore :=
         Some (js_add (score c)
                 (js_mul (Num 0.02)
                    (case counts (doc c) of None \<Rightarrow> NaN | Some n \<Rightarrow> Num (real n - 1))))\<rparr>"

definition reRankNum :: "candidate \<Rightarrow> jsnum" where
  "reRankNum c = (case reRankScore c of None \<Rightarrow> NaN | Some r \<Rightarrow> r)"

definition reRank :: "candidate list \<Rightarrow> candidate list" where
  "reRank candidates =
     js_sort (\<lambda>a b. js_sub (reRankNum b) (reRankNum a))
       (map (withReRank (docCounts candidates)) candidates)"

definition rank :: "string \<Rightarrow> jsnum \<Rightarrow> candidate list \<Rightarrow> candidate list" where
  "rank q thr rawContexts = reRank (filter_fallback thr (boost q rawContexts))"

text \<open>Statement vocabulary for the ranking pass.\<close>

definition doc_count :: "candidate list \<Rightarrow> string \<Rightarrow> nat" where
  "doc_count cs d = length (filter (\<lambda>c. doc c = d) cs)"

text \<open>The re-rank score as the specification words it: score plus 0.02 times (count - 1).\<close>

definition spec_reRankScore :: "candidate list \<Rightarrow> candidate \<Rightarrow> jsnum" where
  "spec_reRankScore cs c =
     js_add (score c) (js_mul (Num 0.02) (Num (real (doc_count cs (doc c)) - 1)))"

definition spec_annotate :: "candidate list \<Rightarrow> candidate \<Rightarrow> candidate" where
  "spec_annotate cs c = c\<lparr>reRankScore := Some (spec_reRankScore cs c)\<rparr>"





text \<open>Concrete records for the examples.\<close>

definition ex_chunk :: "string \<Rightarrow> string \<Rightarrow> int \<Rightarrow> real list \<Rightarrow> chunk" where
  "ex_chunk i d n e = \<lparr>id' = i, doc = d, chunkIndex = n, text' = ''t'', embedding = e\<rparr>"

definition ex_cand :: "string \<Rightarrow> string \<Rightarrow> jsnum \<Rightarrow> candidate" where
  "ex_cand i d s =
     \<lparr>id' = i, doc = d, chunkIndex = 0, text' = ''t'', score = s, reRankScore = None\<rparr>"



section \<open>The /ask handler (index.js)\<close>

text \<open>
  JavaScript values, as far as the handler meets them: the request's \<open>question\<close>, the
  value that \<open>JSON.parse\<close> returns, and the response bodies handed to \<open>res.json\<close>.  An
  object is its list of own properties.
\<close>

datatype jsval =
    VUndefined
  | VNull
  | VBool bool
  | VNum jsnum
  | VStr string
  | VArr "jsval list"
  | VObj "(string \<times> jsval) list"

fun typeof :: "jsval \<Rightarrow> string" where
  "typeof VUndefined = ''undefined''"
| "typeof VNull = ''object''"
| "typeof (VBool _) = ''boolean''"
| "typeof (VNum _) = ''number''"
| "typeof (VStr _) = ''string''"
| "typeof (VArr _) = ''object''"
| "typeof (VObj _) = ''object''"

fun isArray :: "jsval \<Rightarrow> bool" where
  "isArray (VArr _) = True"
| "isArray _ = False"

text \<open>
  What a \<open>throw\<close> carries: a \<open>TypeError\<close> of the language with its message, or the error of
  a provider call with its name and message.  The handler reads \<open>err.message\<close> and, when
  that is empty, \<open>String(err)\<close>.
\<close>

datatype js_exn = TypeError string | ProviderError string string

fun message :: "js_exn \<Rightarrow> string" where
  "message (TypeError m) = m"
| "message (ProviderError n m) = m"

fun error_name :: "js_exn \<Rightarrow> string" where
  "error_name (TypeError m) = ''TypeError''"
| "error_name (ProviderError n m) = n"

text \<open>\<open>String(err)\<close>: the name, the message, or both joined by a colon and a space.\<close>

definition error_to_String :: "js_exn \<Rightarrow> string" where
  "error_to_String err =
     (if error_name err = [] then message err
      else if message err = [] then error_name err
      else error_name err @ '': '' @ message err)"

text \<open>
  The property read \<open>v.name\<close>, for the two names the handler reads (\<open>answer\<close>, \<open>sources\<close>),
  which no prototype defines: on \<open>null\<close> and \<open>undefined\<close> it throws a \<open>TypeError\<close> (with the
  message text of V8), on an object it is the own property or \<open>undefined\<close>, on anything else
  it is \<open>undefined\<close>.
\<close>

fun get_prop :: "jsval \<Rightarrow> string \<Rightarrow> js_exn + jsval" where
  "get_prop VUndefined name =
     Inl (TypeError (''Cannot read properties of undefined (reading ''
                       @ [CHR 0x27] @ name @ [CHR 0x27] @ '')''))"
| "get_prop VNull name =
     Inl (TypeError (''Cannot read properties of null (reading ''
                       @ [CHR 0x27] @ name @ [CHR 0x27] @ '')''))"
| "get_prop (VObj props) name =
     Inr (case map_of props name of None \<Rightarrow> VUndefined | Some v \<Rightarrow> v)"
| "get_prop _ name = Inr VUndefined"

record response =
  status :: nat
  body :: jsval

text \<open>The two shapes of a \<open>used_contexts\<close> entry (lines 105 and 126, and line 116).\<close>

definition used_context_full :: "candidate \<Rightarrow> jsval" where
  "used_context_full c =
     VObj [(''doc'', VStr (doc c)),
           (''chunkIndex'', VNum (Num (real_of_int (chunkIndex c)))),
           (''score'', VNum (score c)),
           (''reRankScore'', case reRankScore c of None \<Rightarrow> VUndefined | Some r \<Rightarrow> VNum r)]"

definition used_context_brief :: "candidate \<Rightarrow> jsval" where
  "used_context_brief c =
     VObj [(''doc'', VStr (doc c)),
           (''chunkIndex'', VNum (Num (real_of_int (chunkIndex c)))),
           (''score'', VNum (score c))]"

text \<open>
  The condition of line 111, evaluated left to right with short circuit:
  \<open>typeof parsed !== 'object' || typeof parsed.answer !== 'string' || !Array.isArray(parsed.sources)\<close>.
\<close>

definition shape_invalid :: "jsval \<Rightarrow> js_exn + bool" where
  "shape_invalid parsed =
     (if typeof parsed \<noteq> ''object'' then Inr True
      else case get_prop parsed ''answer'' of
             Inl e \<Rightarrow> Inl e
           | Inr a \<Rightarrow>
               if typeof a \<noteq> ''string'' then Inr True
               else case get_prop parsed ''sources'' of
                      Inl e \<Rightarrow> Inl e
                    | Inr s \<Rightarrow> Inr (\<not> isArray s))"

definition not_json_response :: "string \<Rightarrow> string \<Rightarrow> candidate list \<Rightarrow> int \<Rightarrow> response" where
  "not_json_response raw parseError candidates latency =
     \<lparr>status = 500,
      body = VObj [(''error'', VStr ''model_response_not_json''),
                   (''raw'', VStr raw),
                   (''parseError'', VStr parseError),
                   (''used_contexts'', VArr (map used_context_full candidates)),
                   (''latency_ms'', VNum (Num (real_of_int latency)))]\<rparr>"

definition invalid_shape_response :: "jsval \<Rightarrow> candidate list \<Rightarrow> int \<Rightarrow> response" where
  "invalid_shape_response parsed candidates latency =
     \<lparr>status = 500,
      body = VObj [(''error'', VStr ''invalid_model_json_shape''),
                   (''parsed'', parsed),
                   (''used_contexts'', VArr (map used_context_brief candidates)),
                   (''latency_ms'', VNum (Num (real_of_int latency)))]\<rparr>"

definition success_response :: "jsval \<Rightarrow> jsval \<Rightarrow> candidate list \<Rightarrow> int \<Rightarrow> response" where
  "success_response answer sources candidates latency =
     \<lparr>status = 200,
      body = VObj [(''answer'', answer),
                   (''sources'', sources),
                   (''used_contexts'', VArr (map used_context_full candidates)),
                   (''latency_ms'', VNum (Num (real_of_int latency)))]\<rparr>"

text \<open>\<open>details: err?.message || String(err)\<close>: an empty message is falsy.\<close>

definition server_error_response :: "js_exn \<Rightarrow> response" where
  "server_error_response err =
     \<lparr>status = 500,
      body = VObj [(''error'', VStr ''server_error''),
                   (''details'', VStr (if message err \<noteq> [] then message err
                                       else error_to_String err))]\<rparr>"

definition client_error_response :: "string \<Rightarrow> response" where
  "client_error_response e = \<lparr>status = 400, body = VObj [(''error'', VStr e)]\<rparr>"

text \<open>
  Lines 94 to 128, inside the \<open>try\<close>.  \<open>raw\<close> is the trimmed model output and \<open>parsed\<close> the
  outcome of \<open>JSON.parse(raw)\<close>: \<open>Inl\<close> the text of the syntax error, \<open>Inr\<close> the value.
  \<open>JSON.parse\<close> belongs to the language and is not modelled; its outcome is an argument.
  \<open>latency\<close> is \<open>Date.now() - start\<close>.
\<close>

definition validate_output ::
    "string \<Rightarrow> string + jsval \<Rightarrow> candidate list \<Rightarrow> int \<Rightarrow> js_exn + response" where
  "validate_output raw parse_outcome candidates latency =
     (case parse_outcome of
        Inl parseErr \<Rightarrow> Inr (not_json_response raw parseErr candidates latency)
      | Inr parsed \<Rightarrow>
          (case shape_invalid parsed of
             Inl e \<Rightarrow> Inl e
           | Inr True \<Rightarrow> Inr (invalid_shape_response parsed candidates latency)
           | Inr False \<Rightarrow>
               (case get_prop parsed ''answer'' of
                  Inl e \<Rightarrow> Inl e
                | Inr answer \<Rightarrow>
                    (case get_prop parsed ''sources'' of
                       Inl e \<Rightarrow> Inl e
                     | Inr sources \<Rightarrow>
                         Inr (success_response answer sources candidates latency)))))"

text \<open>The outer \<open>catch (err)\<close> of the handler.\<close>

definition catch_all :: "js_exn + response \<Rightarrow> response" where
  "catch_all r = (case r of Inl err \<Rightarrow> server_error_response err | Inr res \<Rightarrow> res)"

text \<open>Lines 19 to 23: \<open>Inl\<close> the error text of the 400 response, \<open>Inr\<close> the accepted question.\<close>

definition validate_question :: "jsval \<Rightarrow> string + string" where
  "validate_question q =
     (case q of
        VStr s \<Rightarrow>
          if s = [] \<or> length (trim s) = 0 then Inl ''question required''
          else if 2000 < length s then Inl ''question too long''
          else Inr s
      | _ \<Rightarrow> Inl ''question required'')"

text \<open>
  The calls to the external providers, in the order the handler makes them.  The two prompts
  are a fixed function of the question and the ranked candidates (lines 63 to 68), so the
  generation call is recorded with these two.
\<close>

datatype provider_call =
    EmbeddingsCreate string
  | ResponsesCreate string "candidate list"

text \<open>
  The handler.  Its environment is passed in: the loaded \<open>vectors\<close>, \<open>TOP_K\<close> and
  \<open>SCORE_THRESHOLD\<close> as parsed, the embedding provider, the generation provider (returning
  the text extracted in lines 82 to 90), \<open>JSON.parse\<close>, and the latency.  The result is the
  response and the provider calls made.  A \<open>TOP_K\<close> that does not parse is NaN, and
  \<open>slice(0, NaN)\<close> is \<open>slice(0, 0)\<close>: it is passed as 0.
\<close>

definition ask ::
    "chunk list \<Rightarrow> int \<Rightarrow> jsnum
     \<Rightarrow> (string \<Rightarrow> js_exn + real list)
     \<Rightarrow> (string \<Rightarrow> candidate list \<Rightarrow> js_exn + string)
     \<Rightarrow> (string \<Rightarrow> string + jsval)
     \<Rightarrow> int \<Rightarrow> jsval \<Rightarrow> response \<times> provider_call list" where
  "ask vectors top_k threshold embeddings_create responses_create json_parse latency question =
     (case validate_question question of
        Inl e \<Rightarrow> (client_error_response e, [])
      | Inr q \<Rightarrow>
          (case embeddings_create q of
             Inl err \<Rightarrow> (catch_all (Inl err), [EmbeddingsCreate q])
           | Inr qEmb \<Rightarrow>
               (let rawContexts = topK vectors qEmb top_k;
                    candidates = rank q threshold rawContexts in
                case responses_create q candidates of
                  Inl err \<Rightarrow>
                    (catch_all (Inl err), [EmbeddingsCreate q, ResponsesCreate q candidates])
                | Inr output \<Rightarrow>
                    (let raw = trim output in
                     (catch_all (validate_output raw (json_parse raw) candidates latency),
                      [EmbeddingsCreate q, ResponsesCreate q candidates])))))"

text \<open>The property names of an object that \<open>res.json\<close> writes: those not \<open>undefined\<close>.\<close>

fun written_keys :: "jsval \<Rightarrow> string list" where
  "written_keys (VObj props) = map fst (filter (\<lambda>p. snd p \<noteq> VUndefined) props)"
| "written_keys _ = []"

section \<open>The store as a heap of objects\<close>

text \<open>
  For the question whether \<open>topK\<close> hands out the store's own records, objects live in a
  heap: an address is an index into the list of objects, and allocating appends.  The
  module variable \<open>vectors\<close> is an array of addresses of chunk records.
\<close>

type_synonym addr = nat

text \<open>
  The three kinds of object that \<open>topK\<close> meets: a stored chunk record, the intermediate
  \<open>{score, v}\<close> (which holds the address of its chunk), and a returned candidate.
\<close>

datatype obj = ChunkObj chunk | ScoredObj jsnum addr | CandObj candidate

type_synonym heap = "obj list"

text \<open>Reading an object of the expected kind; \<open>None\<close> when the address holds something else.\<close>

definition read_chunk :: "heap \<Rightarrow> addr \<Rightarrow> chunk option" where
  "read_chunk h a =
     (if a < length h then (case h ! a of ChunkObj c \<Rightarrow> Some c | _ \<Rightarrow> None) else None)"

definition read_scored :: "heap \<Rightarrow> addr \<Rightarrow> (jsnum \<times> addr) option" where
  "read_scored h a =
     (if a < length h then (case h ! a of ScoredObj s v \<Rightarrow> Some (s, v) | _ \<Rightarrow> None) else None)"

definition read_cand :: "heap \<Rightarrow> addr \<Rightarrow> candidate option" where
  "read_cand h a =
     (if a < length h then (case h ! a of CandObj c \<Rightarrow> Some c | _ \<Rightarrow> None) else None)"

text \<open>
  \<open>xs.map(x => ({...}))\<close>: for each element, in order, build an object from the current heap
  and allocate it; the result is the new heap and the addresses of the new objects.
\<close>

fun alloc_map :: "(heap \<Rightarrow> 'a \<Rightarrow> obj option) \<Rightarrow> heap \<Rightarrow> 'a list \<Rightarrow> (heap \<times> addr list) option" where
  "alloc_map f h [] = Some (h, [])"
| "alloc_map f h (x # xs) =
     (case f h x of
        None \<Rightarrow> None
      | Some ob \<Rightarrow>
          (case alloc_map f (h @ [ob]) xs of
             None \<Rightarrow> None
           | Some (h', as) \<Rightarrow> Some (h', length h # as)))"

text \<open>\<open>{score: cosine(queryEmb, v.embedding), v}\<close>\<close>

definition new_scored :: "real list \<Rightarrow> heap \<Rightarrow> addr \<Rightarrow> obj option" where
  "new_scored queryEmb h v =
     map_option (\<lambda>c. ScoredObj (cosine queryEmb (embedding c)) v) (read_chunk h v)"

text \<open>\<open>{score: s.score, id: s.v.id, doc: s.v.doc, chunkIndex: s.v.chunkIndex, text: s.v.text}\<close>\<close>

definition new_candidate :: "heap \<Rightarrow> addr \<Rightarrow> obj option" where
  "new_candidate h s =
     (case read_scored h s of
        None \<Rightarrow> None
      | Some (sc, v) \<Rightarrow> map_option (\<lambda>c. CandObj (make_candidate (sc, c))) (read_chunk h v))"

text \<open>\<open>a.score\<close> in the comparator; a missing property is \<open>undefined\<close>, hence NaN.\<close>

definition score_at :: "heap \<Rightarrow> addr \<Rightarrow> jsnum" where
  "score_at h a = (case read_scored h a of None \<Rightarrow> NaN | Some (sc, v) \<Rightarrow> sc)"

text \<open>\<open>topK\<close> on the heap: the same three steps as \<open>topK\<close> above, on addresses.\<close>

definition topK_heap :: "heap \<Rightarrow> addr list \<Rightarrow> real list \<Rightarrow> int \<Rightarrow> (heap \<times> addr list) option" where
  "topK_heap h vectors queryEmb k =
     (case alloc_map (new_scored queryEmb) h vectors of
        None \<Rightarrow> None
      | Some (h1, scored) \<Rightarrow>
          alloc_map new_candidate h1
            (js_slice0 (js_sort (\<lambda>a b. js_sub (score_at h1 b) (score_at h1 a)) scored) k))"

text \<open>The boost loop of the handler, writing \<open>rc.score\<close> in place.\<close>

fun boost_loop :: "string \<Rightarrow> heap \<Rightarrow> addr list \<Rightarrow> heap option" where
  "boost_loop filename h [] = Some h"
| "boost_loop filename h (rc # rcs) =
     (case read_cand h rc of
        None \<Rightarrow> None
      | Some c \<Rightarrow> boost_loop filename (h[rc := CandObj (boost_one filename c)]) rcs)"

definition boost_heap :: "string \<Rightarrow> heap \<Rightarrow> addr list \<Rightarrow> heap option" where
  "boost_heap q h rawContexts =
     (case fileMention q of
        None \<Rightarrow> Some h
      | Some filename \<Rightarrow> boost_loop filename h rawContexts)"

text \<open>An arbitrary caller's write \<open>rc.score = s\<close>.\<close>

definition set_score :: "heap \<Rightarrow> addr \<Rightarrow> jsnum \<Rightarrow> heap option" where
  "set_score h r s =
     (case read_cand h r of None \<Rightarrow> None | Some c \<Rightarrow> Some (h[r := CandObj (c\<lparr>score := s\<rparr>)]))"

text \<open>Vocabulary of the proofs about the heap.\<close>

definition stable_reads :: "(heap \<Rightarrow> 'a \<Rightarrow> obj option) \<Rightarrow> heap \<Rightarrow> 'a \<Rightarrow> bool" where
  "stable_reads f h x = (f h x \<noteq> None \<and> (\<forall>ext. f (h @ ext) x = f h x))"

definition scored_objs :: "real list \<Rightarrow> addr list \<Rightarrow> chunk list \<Rightarrow> obj list" where
  "scored_objs q vectors chunks =
     map (\<lambda>i. ScoredObj (cosine q (embedding (chunks ! i))) (vectors ! i)) [0..<length vectors]"

definition pair_at :: "real list \<Rightarrow> chunk list \<Rightarrow> nat \<Rightarrow> addr \<Rightarrow> jsnum \<times> chunk" where
  "pair_at q chunks n a = (cosine q (embedding (chunks ! (a - n))), chunks ! (a - n))"

definition selected :: "heap \<Rightarrow> real list \<Rightarrow> addr list \<Rightarrow> chunk list \<Rightarrow> int \<Rightarrow> addr list" where
  "selected h q vectors chunks k =
     js_slice0
       (js_sort (\<lambda>a b. js_sub (score_at (h @ scored_objs q vectors chunks) b)
                              (score_at (h @ scored_objs q vectors chunks) a))
          [length h..<length h + length vectors]) k"

definition candidate_objs :: "heap \<Rightarrow> real list \<Rightarrow> addr list \<Rightarrow> chunk list \<Rightarrow> int \<Rightarrow> obj list" where
  "candidate_objs h q vectors chunks k =
     map (\<lambda>a. CandObj (make_candidate (pair_at q chunks (length h) a)))
       (selected h q vectors chunks k)"

text \<open>A store of two chunk records, at the addresses 0 and 1, for the examples.\<close>

definition ex_store :: heap where
  "ex_store = [ChunkObj (ex_chunk ''a#0'' ''a.txt'' 0 [0, 1]),
               ChunkObj (ex_chunk ''b#0'' ''b.txt'' 0 [1, 0])]"

section \<open>Double-precision arithmetic\<close>

text \<open>
  Where a claim depends on the value that an arithmetic step returns, the step is taken in
  IEEE 754 double precision: the exact result is rounded to the nearest double, ties to
  even, with gradual underflow, and with overflow to an infinity.  The sign of a zero is
  not kept: no step of this program tells \<open>-0\<close> from \<open>+0\<close> (the only divisor is a product
  of square roots, and comparisons and the sort comparator treat both zeros alike).
\<close>

text \<open>Rounding a real to the nearest integer, ties to the even one.\<close>

definition round_half_even :: "real \<Rightarrow> int" where
  "round_half_even y =
     (let f = \<lfloor>y\<rfloor>; r = y - of_int f in
      if r < 1 / 2 then f else if 1 / 2 < r then f + 1 else if even f then f else f + 1)"

text \<open>
  The exponent of the unit in the last place of the double nearest to \<open>x\<close>: 52 below the
  binary exponent of \<open>x\<close>, and never below -1074, where the subnormal numbers lie.
\<close>

definition ulp_exp :: "real \<Rightarrow> int" where
  "ulp_exp x = max (\<lfloor>log 2 \<bar>x\<bar>\<rfloor> - 52) (- 1074)"

text \<open>
  The double nearest to the real \<open>x\<close>.  A result of magnitude \<open>2 ^ 1024\<close> or more does not
  exist as a double: it is the infinity of the sign of \<open>x\<close>.
\<close>

definition round_double :: "real \<Rightarrow> jsnum" where
  "round_double x =
     (if x = 0 then Num 0
      else let e = ulp_exp x;
               y = of_int (round_half_even (x / 2 powi e)) * 2 powi e in
           if 2 ^ 1024 \<le> \<bar>y\<bar> then js_inf (0 < x) else Num y)"

text \<open>
  The operators \<open>+\<close>, \<open>*\<close>, \<open>/\<close> and \<open>Math.sqrt\<close> on doubles: the exact result of finite
  operands, rounded; NaN and the infinities as in \<open>js_add\<close>, \<open>js_mul\<close>, \<open>js_div\<close> and
  \<open>js_sqrt\<close>.  \<open>Math.sqrt\<close> is the correctly rounded square root of the processor.
\<close>

fun fl_add :: "jsnum \<Rightarrow> jsnum \<Rightarrow> jsnum" where
  "fl_add (Num a) (Num b) = round_double (a + b)"
| "fl_add a b = js_add a b"

fun fl_mul :: "jsnum \<Rightarrow> jsnum \<Rightarrow> jsnum" where
  "fl_mul (Num a) (Num b) = round_double (a * b)"
| "fl_mul a b = js_mul a b"

fun fl_div :: "jsnum \<Rightarrow> jsnum \<Rightarrow> jsnum" where
  "fl_div (Num a) (Num b) = (if b = 0 then js_div (Num a) (Num b) else round_double (a / b))"
| "fl_div a b = js_div a b"

fun fl_sqrt :: "jsnum \<Rightarrow> jsnum" where
  "fl_sqrt (Num a) = (if a < 0 then NaN else round_double (sqrt a))"
| "fl_sqrt a = js_sqrt a"

definition fl_sub :: "jsnum \<Rightarrow> jsnum \<Rightarrow> jsnum" where
  "fl_sub a b = fl_add a (js_neg b)"



section \<open>The similarity and the ranking in double precision\<close>

text \<open>\<open>dot\<close>, \<open>norm\<close> and \<open>cosine\<close> of vectorStore.js, every step rounded.\<close>

definition dot_fl :: "real list \<Rightarrow> real list \<Rightarrow> jsnum" where
  "dot_fl a b =
     foldl (\<lambda>s i. fl_add s (fl_mul (Num (a ! i)) (js_index b i))) (Num 0) [0..<length a]"

definition norm_fl :: "real list \<Rightarrow> jsnum" where
  "norm_fl a = fl_sqrt (dot_fl a a)"

definition cosine_fl :: "real list \<Rightarrow> real list \<Rightarrow> jsnum" where
  "cosine_fl a b = fl_div (dot_fl a b) (fl_mul (norm_fl a) (norm_fl b))"

text \<open>The boost of the handler; the literal \<open>0.6\<close> is the double nearest to 0.6.\<close>

definition boost_one_fl :: "string \<Rightarrow> candidate \<Rightarrow> candidate" where
  "boost_one_fl filename rc =
     (if doc rc \<noteq> [] \<and> toLowerCase (doc rc) = filename
      then rc\<lparr>score := fl_add (score rc) (round_double 0.6)\<rparr> else rc)"

definition boost_fl :: "string \<Rightarrow> candidate list \<Rightarrow> candidate list" where
  "boost_fl q rawContexts =
     (case fileMention q of
        None \<Rightarrow> rawContexts
      | Some filename \<Rightarrow> map (boost_one_fl filename) rawContexts)"

text \<open>
  \<open>docCounts\<close> is created as \<open>{}\<close>, so it inherits the properties of \<open>Object.prototype\<close>.
  For a \<open>doc\<close> with the name of such a property, \<open>docCounts[c.doc]\<close> is at first the
  inherited function (for \<open>__proto__\<close>, the prototype object), \<open>+ 1\<close> makes a string of it,
  and \<open>docCounts[c.doc] - 1\<close> is NaN.  These are the property names of \<open>Object.prototype\<close>
  in V8.
\<close>

definition inherited_keys :: "string list" where
  "inherited_keys =
     [''constructor'', ''__defineGetter__'', ''__defineSetter__'', ''hasOwnProperty'',
      ''__lookupGetter__'', ''__lookupSetter__'', ''isPrototypeOf'', ''propertyIsEnumerable'',
      ''toString'', ''valueOf'', ''__proto__'', ''toLocaleString'']"

text \<open>
  \<open>docCounts[c.doc] - 1\<close>.  For any other \<open>doc\<close> the count is that of \<open>docCounts\<close> above; a
  count is a small whole number, which doubles hold exactly.
\<close>

definition count_minus_one :: "(string \<rightharpoonup> nat) \<Rightarrow> string \<Rightarrow> jsnum" where
  "count_minus_one counts d =
     (if d \<in> set inherited_keys then NaN
      else case counts d of None \<Rightarrow> NaN | Some n \<Rightarrow> Num (real n - 1))"

text \<open>
  Lines 58 to 60 in double precision; the literal \<open>0.02\<close> is the double nearest to 0.02.
\<close>

definition withReRank_fl :: "(string \<rightharpoonup> nat) \<Rightarrow> candidate \<Rightarrow> candidate" where
  "withReRank_fl counts c =
     c\<lparr>reRankScore :=
         Some (fl_add (score c)
                 (fl_mul (round_double 0.02) (count_minus_one counts (doc c))))\<rparr>"

definition reRank_fl :: "candidate list \<Rightarrow> candidate list" where
  "reRank_fl candidates =
     js_sort (\<lambda>a b. fl_sub (reRankNum b) (reRankNum a))
       (map (withReRank_fl (docCounts candidates)) candidates)"

definition rank_fl :: "string \<Rightarrow> jsnum \<Rightarrow> candidate list \<Rightarrow> candidate list" where
  "rank_fl q thr rawContexts = reRank_fl (filter_fallback thr (boost_fl q rawContexts))"



text \<open>A vector of zeros only; the empty vector is one.\<close>

definition all_zeros :: "real list \<Rightarrow> bool" where
  "all_zeros a = list_all (\<lambda>x. x = 0) a"


section \<open>The sort\<close>






lemma mset_js_insert: "mset (js_insert cmp x ys) = add_mset x (mset ys)"
  by (induction ys) auto

lemma mset_js_sort: "mset (js_sort cmp xs) = mset xs"
  by (induction xs) (auto simp: js_sort_def mset_js_insert)


lemma set_js_sort: "set (js_sort cmp xs) = set xs"
  by (metis mset_js_sort set_mset_mset)




section \<open>The vector store: topK\<close>









section \<open>Ranking: the re-rank step\<close>

lemma docCounts_foldl:
  "foldl (\<lambda>m c. m(doc c \<mapsto> (case m (doc c) of None \<Rightarrow> 0 | Some n \<Rightarrow> n) + 1)) m0 cs d
   = (if doc_count cs d = 0 then m0 d
      else Some ((case m0 d of None \<Rightarrow> 0 | Some n \<Rightarrow> n) + doc_count cs d))"
  by (induction cs arbitrary: m0) (auto simp: doc_count_def)

lemma docCounts_count:
  "docCounts cs d = (if doc_count cs d = 0 then None else Some (doc_count cs d))"
  unfolding docCounts_def docCounts_foldl by simp

lemma doc_count_pos: "c \<in> set cs \<Longrightarrow> 0 < doc_count cs (doc c)"
  by (auto simp: doc_count_def filter_empty_conv)

lemma withReRank_spec:
  "c \<in> set cs \<Longrightarrow> withReRank (docCounts cs) c = spec_annotate cs c"
  using doc_count_pos [of c cs]
  by (simp add: withReRank_def spec_annotate_def spec_reRankScore_def docCounts_count)

lemma map_withReRank_spec:
  "map (withReRank (docCounts cs)) cs = map (spec_annotate cs) cs"
  by (simp add: withReRank_spec)

lemma reRank_spec:
  "reRank cs = js_sort (\<lambda>a b. js_sub (reRankNum b) (reRankNum a)) (map (spec_annotate cs) cs)"
  by (simp add: reRank_def map_withReRank_spec)




section \<open>Ranking: filter and fallback\<close>



lemma filter_fallback_empty:
  "filter_fallback thr xs = take (min 3 (length xs)) xs" if "filter (above_threshold thr) xs = []"
proof -
  have "nat (min 3 (int (length xs))) = min 3 (length xs)" by linarith
  moreover have "\<not> min 3 (int (length xs)) < 0" by linarith
  ultimately show ?thesis
    using that by (simp add: filter_fallback_def js_slice0_def)
qed

lemma filter_fallback_nonempty:
  "filter (above_threshold thr) xs \<noteq> [] \<Longrightarrow> filter_fallback thr xs = filter (above_threshold thr) xs"
  by (simp add: filter_fallback_def)



section \<open>Ranking: the file-mention boost\<close>

lemma match_ext_take: "match_ext r = Some e \<Longrightarrow> \<exists>n. e = take n r \<and> e \<noteq> []"
  by (auto simp: match_ext_def ci_prefix_def split: if_splits)

lemma match_at_prefix:
  assumes "match_at s = Some m"
  shows "\<exists>rest. s = m @ rest"
proof -
  obtain r e where s: "dropWhile is_name_char s = CHR ''.'' # r"
    and e: "match_ext r = Some e" and m: "m = takeWhile is_name_char s @ ''.'' @ e"
    using assms by (auto simp: match_at_def Let_def split: if_splits list.splits)
  obtain n where n: "e = take n r" using match_ext_take [OF e] by blast
  have "s = takeWhile is_name_char s @ dropWhile is_name_char s" by simp
  also have "\<dots> = takeWhile is_name_char s @ ''.'' @ take n r @ drop n r"
    by (simp add: s)
  finally have "s = m @ drop n r" using m n by simp
  then show ?thesis ..
qed







section \<open>Ranking: applying the pass twice\<close>








lemma set_reRank: "set (reRank F) = spec_annotate F ` set F"
  by (simp add: reRank_spec set_js_sort)





section \<open>NaN is absorbing\<close>

lemma js_add_NaN_right: "js_add s NaN = NaN"
  by (cases s) auto


section \<open>The handler: validation of the question and of the model output\<close>

lemma validate_output_not_json:
  "validate_output raw (Inl e) cs lat = Inr (not_json_response raw e cs lat)"
  by (simp add: validate_output_def)

lemma validate_output_primitive:
  "typeof parsed \<noteq> ''object'' \<Longrightarrow>
   validate_output raw (Inr parsed) cs lat = Inr (invalid_shape_response parsed cs lat)"
  by (simp add: validate_output_def shape_invalid_def)

lemma validate_output_array:
  "validate_output raw (Inr (VArr xs)) cs lat = Inr (invalid_shape_response (VArr xs) cs lat)"
  by (simp add: validate_output_def shape_invalid_def)

lemma validate_output_object:
  "validate_output raw (Inr (VObj props)) cs lat =
     (case (map_of props ''answer'', map_of props ''sources'') of
        (Some (VStr a), Some (VArr s)) \<Rightarrow> Inr (success_response (VStr a) (VArr s) cs lat)
      | _ \<Rightarrow> Inr (invalid_shape_response (VObj props) cs lat))"
  by (simp add: validate_output_def shape_invalid_def split: option.splits jsval.splits)

lemma trim_Nil_iff: "trim s = [] \<longleftrightarrow> (\<forall>c\<in>set s. is_js_space c)"
proof
  assume "trim s = []"
  then have "dropWhile is_js_space (rev (dropWhile is_js_space s)) = []"
    by (simp add: trim_def)
  then have "\<forall>c\<in>set (dropWhile is_js_space s). is_js_space c"
    by (simp add: dropWhile_eq_Nil_conv)
  then have "dropWhile is_js_space s = []"
    by (metis hd_dropWhile list.set_sel(1))
  then show "\<forall>c\<in>set s. is_js_space c"
    by (simp add: dropWhile_eq_Nil_conv)
next
  assume "\<forall>c\<in>set s. is_js_space c"
  then have "dropWhile is_js_space s = []"
    by (simp add: dropWhile_eq_Nil_conv)
  then show "trim s = []"
    unfolding trim_def by (simp only: rev.simps dropWhile.simps)
qed

lemma rank_has_reRankScore: "c \<in> set (rank q thr raw) \<Longrightarrow> reRankScore c \<noteq> None"
  by (auto simp: rank_def set_reRank spec_annotate_def)

lemma written_keys_full:
  "reRankScore c \<noteq> None \<Longrightarrow>
   written_keys (used_context_full c) = [''doc'', ''chunkIndex'', ''score'', ''reRankScore'']"
  by (auto simp: used_context_full_def)

lemma written_keys_brief:
  "written_keys (used_context_brief c) = [''doc'', ''chunkIndex'', ''score'']"
  by (simp add: used_context_brief_def)

lemma validate_output_invalid:
  "shape_invalid parsed = Inr True \<Longrightarrow>
   validate_output raw (Inr parsed) cs lat = Inr (invalid_shape_response parsed cs lat)"
  by (simp add: validate_output_def)

lemma validate_output_valid:
  "shape_invalid parsed = Inr False \<Longrightarrow>
   \<exists>a s. validate_output raw (Inr parsed) cs lat = Inr (success_response a s cs lat)"
  by (auto simp: validate_output_def shape_invalid_def split: if_splits sum.splits)

section \<open>The store as a heap: topK allocates, the boost writes to the copies\<close>

lemma alloc_map_closed:
  "\<forall>x\<in>set xs. stable_reads f h x \<Longrightarrow>
   alloc_map f h xs = Some (h @ map (\<lambda>x. the (f h x)) xs, [length h..<length h + length xs])"
proof (induction xs arbitrary: h)
  case Nil
  then show ?case by simp
next
  case (Cons x xs)
  from Cons.prems obtain ob where ob: "f h x = Some ob"
    by (auto simp: stable_reads_def)
  have st: "\<forall>y\<in>set xs. stable_reads f (h @ [ob]) y"
  proof
    fix y assume "y \<in> set xs"
    then have s: "stable_reads f h y" using Cons.prems by simp
    then have "f (h @ [ob]) y = f h y" by (simp add: stable_reads_def)
    moreover have "f ((h @ [ob]) @ ext) y = f h y" for ext
      using s by (simp add: stable_reads_def)
    ultimately show "stable_reads f (h @ [ob]) y"
      using s by (simp add: stable_reads_def)
  qed
  have same: "map (\<lambda>y. the (f (h @ [ob]) y)) xs = map (\<lambda>y. the (f h y)) xs"
    using Cons.prems by (auto simp: stable_reads_def)
  have ih: "alloc_map f (h @ [ob]) xs
      = Some ((h @ [ob]) @ map (\<lambda>y. the (f (h @ [ob]) y)) xs,
              [length (h @ [ob])..<length (h @ [ob]) + length xs])"
    using st by (rule Cons.IH)
  have A: "length h # [length (h @ [ob])..<length (h @ [ob]) + length xs]
      = [length h..<length h + length (x # xs)]"
    by (simp add: upt_rec)
  have H: "(h @ [ob]) @ map (\<lambda>y. the (f h y)) xs = h @ map (\<lambda>y. the (f h y)) (x # xs)"
    using ob by simp
  show ?case
    by (simp only: alloc_map.simps ob option.case ih same prod.case A H)
qed

lemma read_chunk_append:
  "read_chunk h v = Some c \<Longrightarrow> read_chunk (h @ ext) v = Some c"
  by (auto simp: read_chunk_def nth_append split: if_splits)

lemma read_scored_append:
  "read_scored h v = Some c \<Longrightarrow> read_scored (h @ ext) v = Some c"
  by (auto simp: read_scored_def nth_append split: if_splits)

lemma read_cand_append:
  "read_cand h v = Some c \<Longrightarrow> read_cand (h @ ext) v = Some c"
  by (auto simp: read_cand_def nth_append split: if_splits)

lemma read_chunk_less: "read_chunk h v = Some c \<Longrightarrow> v < length h"
  by (auto simp: read_chunk_def split: if_splits)

lemma new_scored_stable:
  "read_chunk h v = Some c \<Longrightarrow> stable_reads (new_scored q) h v"
  by (simp add: stable_reads_def new_scored_def read_chunk_append)

lemma store_nth:
  assumes "map (read_chunk h) vectors = map Some chunks"
  shows "length vectors = length chunks"
    and "i < length vectors \<Longrightarrow> read_chunk h (vectors ! i) = Some (chunks ! i)"
proof -
  show l: "length vectors = length chunks"
    using assms by (metis length_map)
  assume i: "i < length vectors"
  then have "map (read_chunk h) vectors ! i = read_chunk h (vectors ! i)" by simp
  moreover have "map Some chunks ! i = Some (chunks ! i)" using i l by simp
  ultimately show "read_chunk h (vectors ! i) = Some (chunks ! i)" using assms by simp
qed

lemma score_phase:
  assumes "map (read_chunk h) vectors = map Some chunks"
  shows "alloc_map (new_scored q) h vectors
       = Some (h @ scored_objs q vectors chunks, [length h..<length h + length vectors])"
proof -
  have st: "\<forall>v\<in>set vectors. stable_reads (new_scored q) h v"
  proof
    fix v assume "v \<in> set vectors"
    then obtain i where "i < length vectors" "v = vectors ! i"
      by (auto simp: in_set_conv_nth)
    then show "stable_reads (new_scored q) h v"
      using store_nth(2) [OF assms] new_scored_stable by blast
  qed
  have "map (\<lambda>v. the (new_scored q h v)) vectors = scored_objs q vectors chunks"
    unfolding scored_objs_def
    by (rule nth_equalityI) (simp_all add: new_scored_def store_nth(2) [OF assms])
  then show ?thesis
    using alloc_map_closed [OF st] by simp
qed

lemma scored_reads:
  assumes "map (read_chunk h) vectors = map Some chunks"
    and "length h \<le> a" and "a < length h + length vectors"
  shows "read_scored (h @ scored_objs q vectors chunks @ ext) a
       = Some (cosine q (embedding (chunks ! (a - length h))), vectors ! (a - length h))"
    and "read_chunk (h @ scored_objs q vectors chunks @ ext) (vectors ! (a - length h))
       = Some (chunks ! (a - length h))"
proof -
  have l: "length (scored_objs q vectors chunks) = length vectors"
    by (simp add: scored_objs_def)
  have i: "a - length h < length vectors" using assms(2,3) by simp
  show "read_scored (h @ scored_objs q vectors chunks @ ext) a
       = Some (cosine q (embedding (chunks ! (a - length h))), vectors ! (a - length h))"
    using assms(2,3) i l by (simp add: read_scored_def nth_append scored_objs_def)
  show "read_chunk (h @ scored_objs q vectors chunks @ ext) (vectors ! (a - length h))
       = Some (chunks ! (a - length h))"
    using store_nth(2) [OF assms(1) i] by (rule read_chunk_append)
qed

lemma new_candidate_scored:
  assumes "map (read_chunk h) vectors = map Some chunks"
    and "length h \<le> a" and "a < length h + length vectors"
  shows "new_candidate (h @ scored_objs q vectors chunks @ ext) a
       = Some (CandObj (make_candidate (pair_at q chunks (length h) a)))"
  using scored_reads [OF assms, of q ext]
  by (simp add: new_candidate_def pair_at_def)

lemma new_candidate_stable:
  assumes "map (read_chunk h) vectors = map Some chunks"
    and "length h \<le> a" and "a < length h + length vectors"
  shows "stable_reads new_candidate (h @ scored_objs q vectors chunks) a"
  using new_candidate_scored [OF assms, of q] new_candidate_scored [OF assms, of q "[]"]
  by (simp add: stable_reads_def)

lemma score_at_scored:
  assumes "map (read_chunk h) vectors = map Some chunks"
    and "length h \<le> a" and "a < length h + length vectors"
  shows "score_at (h @ scored_objs q vectors chunks) a = fst (pair_at q chunks (length h) a)"
  using scored_reads(1) [OF assms, of q "[]"]
  by (simp add: score_at_def pair_at_def)

lemma js_insert_map:
  "\<forall>b\<in>set ys. cmp x b = cmp' (g x) (g b) \<Longrightarrow>
   map g (js_insert cmp x ys) = js_insert cmp' (g x) (map g ys)"
  by (induction ys) auto

lemma set_js_insert: "set (js_insert cmp x ys) = insert x (set ys)"
  by (metis mset_js_insert set_mset_add_mset_insert set_mset_mset)

lemma js_sort_map:
  "\<forall>a\<in>set xs. \<forall>b\<in>set xs. cmp a b = cmp' (g a) (g b) \<Longrightarrow>
   map g (js_sort cmp xs) = js_sort cmp' (map g xs)"
proof (induction xs)
  case Nil
  then show ?case by (simp add: js_sort_def)
next
  case (Cons x xs)
  have ih: "map g (js_sort cmp xs) = js_sort cmp' (map g xs)"
    using Cons by simp
  have "\<forall>b\<in>set (js_sort cmp xs). cmp x b = cmp' (g x) (g b)"
    using Cons.prems by (simp add: set_js_sort)
  then have "map g (js_insert cmp x (js_sort cmp xs))
      = js_insert cmp' (g x) (map g (js_sort cmp xs))"
    by (rule js_insert_map)
  then show ?case
    using ih by (simp add: js_sort_def)
qed

lemma js_slice0_map: "map g (js_slice0 xs k) = js_slice0 (map g xs) k"
  by (simp add: js_slice0_def take_map)

lemma set_js_slice0: "set (js_slice0 xs k) \<subseteq> set xs"
  by (auto simp: js_slice0_def dest: in_set_takeD)

lemma set_selected:
  "set (selected h q vectors chunks k) \<subseteq> {length h..<length h + length vectors}"
  using set_js_slice0 by (fastforce simp: selected_def set_js_sort)

lemma topK_heap_closed:
  assumes "map (read_chunk h) vectors = map Some chunks"
  shows "topK_heap h vectors q k
       = Some (h @ scored_objs q vectors chunks @ candidate_objs h q vectors chunks k,
               [length h + length vectors
                ..<length h + length vectors + length (selected h q vectors chunks k)])"
proof -
  let ?h1 = "h @ scored_objs q vectors chunks"
  let ?sel = "selected h q vectors chunks k"
  have l1: "length ?h1 = length h + length vectors"
    by (simp add: scored_objs_def)
  have rng: "\<forall>a\<in>set ?sel. length h \<le> a \<and> a < length h + length vectors"
    using set_selected [of h q vectors chunks k] by auto
  have st: "\<forall>a\<in>set ?sel. stable_reads new_candidate ?h1 a"
    using rng new_candidate_stable [OF assms] by blast
  have "\<forall>a\<in>set ?sel. new_candidate ?h1 a
      = Some (CandObj (make_candidate (pair_at q chunks (length h) a)))"
    using rng new_candidate_scored [OF assms, of _ q "[]"] by simp
  then have m: "map (\<lambda>a. the (new_candidate ?h1 a)) ?sel = candidate_objs h q vectors chunks k"
    by (simp add: candidate_objs_def)
  have "alloc_map new_candidate ?h1 ?sel
      = Some (?h1 @ map (\<lambda>a. the (new_candidate ?h1 a)) ?sel,
              [length ?h1..<length ?h1 + length ?sel])"
    using st by (rule alloc_map_closed)
  then have "alloc_map new_candidate ?h1 ?sel
      = Some (h @ scored_objs q vectors chunks @ candidate_objs h q vectors chunks k,
              [length h + length vectors..<length h + length vectors + length ?sel])"
    by (simp only: m l1 append_assoc)
  then show ?thesis
    by (simp add: topK_heap_def score_phase [OF assms] selected_def)
qed

lemma selected_refines:
  assumes "map (read_chunk h) vectors = map Some chunks"
  shows "map (pair_at q chunks (length h)) (selected h q vectors chunks k)
       = js_slice0 (js_sort (\<lambda>a b. js_sub (fst b) (fst a))
           (map (\<lambda>v. (cosine q (embedding v), v)) chunks)) k"
proof -
  let ?n = "length h"
  let ?up = "[?n..<?n + length vectors]"
  let ?h1 = "h @ scored_objs q vectors chunks"
  have len: "length vectors = length chunks" by (rule store_nth(1) [OF assms])
  have cmp: "\<forall>a\<in>set ?up. \<forall>b\<in>set ?up.
      js_sub (score_at ?h1 b) (score_at ?h1 a)
      = js_sub (fst (pair_at q chunks ?n b)) (fst (pair_at q chunks ?n a))"
    using score_at_scored [OF assms, of _ q] by simp
  have "map (pair_at q chunks ?n) (js_sort (\<lambda>a b. js_sub (score_at ?h1 b) (score_at ?h1 a)) ?up)
      = js_sort (\<lambda>a b. js_sub (fst b) (fst a)) (map (pair_at q chunks ?n) ?up)"
    using cmp by (rule js_sort_map)
  moreover have "map (pair_at q chunks ?n) ?up = map (\<lambda>v. (cosine q (embedding v), v)) chunks"
    by (rule nth_equalityI) (simp_all add: len pair_at_def)
  ultimately show ?thesis
    by (simp add: selected_def js_slice0_map)
qed

lemma topK_heap_refines:
  assumes "map (read_chunk h) vectors = map Some chunks"
  shows "map (read_cand (h @ scored_objs q vectors chunks @ candidate_objs h q vectors chunks k))
           [length h + length vectors
            ..<length h + length vectors + length (selected h q vectors chunks k)]
       = map Some (topK chunks q k)"
proof -
  let ?sel = "selected h q vectors chunks k"
  let ?L = "length h + length vectors"
  let ?h2 = "h @ scored_objs q vectors chunks @ candidate_objs h q vectors chunks k"
  have ls: "length (scored_objs q vectors chunks) = length vectors"
    by (simp add: scored_objs_def)
  have lc: "length (candidate_objs h q vectors chunks k) = length ?sel"
    by (simp add: candidate_objs_def)
  have "map (read_cand ?h2) [?L..<?L + length ?sel]
      = map (\<lambda>a. Some (make_candidate (pair_at q chunks (length h) a))) ?sel"
  proof (rule nth_equalityI)
    show "length (map (read_cand ?h2) [?L..<?L + length ?sel])
        = length (map (\<lambda>a. Some (make_candidate (pair_at q chunks (length h) a))) ?sel)"
      by simp
  next
    fix i assume "i < length (map (read_cand ?h2) [?L..<?L + length ?sel])"
    then have i: "i < length ?sel" by simp
    have "?h2 ! (?L + i) = candidate_objs h q vectors chunks k ! i"
      using ls by (simp add: nth_append)
    then have "read_cand ?h2 (?L + i)
        = Some (make_candidate (pair_at q chunks (length h) (?sel ! i)))"
      using i ls lc by (simp add: read_cand_def candidate_objs_def)
    then show "map (read_cand ?h2) [?L..<?L + length ?sel] ! i
        = map (\<lambda>a. Some (make_candidate (pair_at q chunks (length h) a))) ?sel ! i"
      using i by simp
  qed
  also have "\<dots> = map Some (map make_candidate (map (pair_at q chunks (length h)) ?sel))"
    by simp
  also have "\<dots> = map Some (topK chunks q k)"
    by (simp only: selected_refines [OF assms] topK_def)
  finally show ?thesis .
qed

lemma read_cand_update:
  "read_cand h a \<noteq> None \<Longrightarrow> read_cand (h[r := CandObj c]) a \<noteq> None"
  by (cases "a = r") (auto simp: read_cand_def split: if_splits)

lemma boost_loop_frame:
  "\<forall>r\<in>set rcs. read_cand h r \<noteq> None \<Longrightarrow>
   \<exists>h'. boost_loop fn h rcs = Some h' \<and> length h' = length h
        \<and> (\<forall>a. a \<notin> set rcs \<longrightarrow> h' ! a = h ! a)"
proof (induction rcs arbitrary: h)
  case Nil
  then show ?case by simp
next
  case (Cons rc rcs)
  then obtain c where c: "read_cand h rc = Some c" by auto
  let ?h = "h[rc := CandObj (boost_one fn c)]"
  have "\<forall>r\<in>set rcs. read_cand ?h r \<noteq> None"
    using Cons.prems read_cand_update by simp
  then obtain h' where h': "boost_loop fn ?h rcs = Some h'" "length h' = length ?h"
      "\<forall>a. a \<notin> set rcs \<longrightarrow> h' ! a = ?h ! a"
    using Cons.IH by blast
  then have "boost_loop fn h (rc # rcs) = Some h' \<and> length h' = length h
      \<and> (\<forall>a. a \<notin> set (rc # rcs) \<longrightarrow> h' ! a = h ! a)"
    using c by simp
  then show ?case by blast
qed

lemma boost_heap_frame:
  assumes "\<forall>r\<in>set rcs. read_cand h r \<noteq> None"
  shows "\<exists>h'. boost_heap question h rcs = Some h' \<and> length h' = length h
        \<and> (\<forall>a. a \<notin> set rcs \<longrightarrow> h' ! a = h ! a)"
  using boost_loop_frame [OF assms] by (simp add: boost_heap_def split: option.splits)

lemma set_score_frame:
  assumes "read_cand h r \<noteq> None"
  shows "\<exists>h'. set_score h r s = Some h' \<and> length h' = length h
        \<and> (\<forall>a. a \<noteq> r \<longrightarrow> h' ! a = h ! a)"
  using assms by (auto simp: set_score_def)

lemma frame_take:
  assumes "length h' = length h1" and "\<forall>a. a \<notin> R \<longrightarrow> h' ! a = h1 ! a"
    and "\<forall>r\<in>R. n \<le> r" and "take n h1 = h" and "n \<le> length h1"
  shows "take n h' = h"
proof -
  have "take n h' = take n h1"
  proof (rule nth_equalityI)
    show "length (take n h') = length (take n h1)" using assms(1) by simp
  next
    fix i assume "i < length (take n h')"
    then have "i < n" by simp
    then have "i \<notin> R" using assms(3) by auto
    then show "take n h' ! i = take n h1 ! i"
      using assms(2) \<open>i < n\<close> by simp
  qed
  then show ?thesis using assms(4) by simp
qed

lemma read_chunk_take:
  assumes "take (length h) h' = h" and "map (read_chunk h) vectors = map Some chunks"
  shows "map (read_chunk h') vectors = map Some chunks"
proof -
  have "h' = h @ drop (length h) h'"
    using assms(1) by (metis append_take_drop_id)
  then obtain ext where e: "h' = h @ ext" ..
  have "map (read_chunk h') vectors = map (read_chunk h) vectors"
  proof (rule map_cong [OF refl])
    fix v assume "v \<in> set vectors"
    then obtain i where "i < length vectors" "v = vectors ! i"
      by (auto simp: in_set_conv_nth)
    then have "read_chunk h v = Some (chunks ! i)"
      using store_nth(2) [OF assms(2)] by simp
    then show "read_chunk h' v = read_chunk h v"
      unfolding e by (simp add: read_chunk_append)
  qed
  then show ?thesis using assms(2) by simp
qed

lemma map_Some_not_None: "map f xs = map Some ys \<Longrightarrow> x \<in> set xs \<Longrightarrow> f x \<noteq> None"
proof -
  assume m: "map f xs = map Some ys" and x: "x \<in> set xs"
  then have "f x \<in> set (map Some ys)" by (metis image_eqI set_map)
  then show "f x \<noteq> None" by auto
qed

section \<open>Double-precision arithmetic: rounding\<close>

lemma round_double_0 [simp]: "round_double 0 = Num 0"
  by (simp add: round_double_def)

lemma round_double_not_NaN [simp]: "round_double x \<noteq> NaN"
  by (cases "0 < x") (simp_all add: round_double_def Let_def)

lemma round_half_even_0 [simp]: "round_half_even 0 = 0"
  by (simp add: round_half_even_def)

lemma round_half_even_eqI:
  assumes "\<bar>y - of_int m\<bar> < 1 / 2"
  shows "round_half_even y = m"
proof (cases "of_int m \<le> y")
  case True
  then have "\<lfloor>y\<rfloor> = m" using assms by linarith
  then show ?thesis using assms True by (simp add: round_half_even_def)
next
  case False
  then have f: "\<lfloor>y\<rfloor> = m - 1" using assms by linarith
  have "1 / 2 < y - of_int (m - 1)" using assms False by simp
  then show ?thesis using f by (simp add: round_half_even_def)
qed

lemma floor_log2_eqI:
  assumes "2 powi k \<le> x" and "x < 2 powi (k + 1)"
  shows "\<lfloor>log 2 x\<rfloor> = k"
proof -
  have pos: "0 < x" using assms(1) zero_less_power_int [of "2::real" k] by linarith
  have "(2::real) powr real_of_int k = 2 powi k"
    by (rule powr_real_of_int') simp_all
  moreover have "(2::real) powr real_of_int (k + 1) = 2 powi (k + 1)"
    by (rule powr_real_of_int') simp_all
  ultimately have "2 powr real_of_int k \<le> x \<and> x < 2 powr (real_of_int k + 1)"
    using assms by simp
  then show ?thesis
    using pos by (simp add: floor_log_eq_powr_iff)
qed

text \<open>
  How a concrete rounding is computed: the binary exponent \<open>k\<close> of \<open>x\<close>, the exponent \<open>e\<close> of
  the last place, and the integer \<open>m\<close> nearest to \<open>x / 2 ^ e\<close>.
\<close>

lemma round_double_eqI:
  assumes "2 powi k \<le> \<bar>x\<bar>" and "\<bar>x\<bar> < 2 powi (k + 1)"
    and "e = max (k - 52) (- 1074)"
    and "\<bar>x / 2 powi e - of_int m\<bar> < 1 / 2"
    and "\<bar>of_int m * 2 powi e\<bar> < (2::real) ^ 1024"
  shows "round_double x = Num (of_int m * 2 powi e)"
proof -
  have "0 < \<bar>x\<bar>" using assms(1) zero_less_power_int [of "2::real" k] by linarith
  then have nz: "x \<noteq> 0" by simp
  have "\<lfloor>log 2 \<bar>x\<bar>\<rfloor> = k" using assms(1,2) by (rule floor_log2_eqI)
  then have e: "ulp_exp x = e" by (simp add: ulp_exp_def assms(3))
  have r: "round_half_even (x / 2 powi e) = m"
    using assms(4) by (rule round_half_even_eqI)
  show ?thesis
    using nz assms(5) by (simp add: round_double_def e r Let_def)
qed




















section \<open>The re-rank step in double precision\<close>







lemma length_boost_fl: "length (boost_fl q raw) = length raw"
  by (simp add: boost_fl_def split: option.splits)

lemma set_reRank_fl: "set (reRank_fl F) = withReRank_fl (docCounts F) ` set F"
  by (simp add: reRank_fl_def set_js_sort)

lemma score_withReRank_fl: "score (withReRank_fl counts c) = score c"
  by (simp add: withReRank_fl_def)

lemma NaN_only_by_fallback_fl:
  assumes "c \<in> set (rank_fl q thr raw)" and "score c = NaN"
  shows "filter (above_threshold thr) (boost_fl q raw) = []"
proof (rule ccontr)
  assume ne: "filter (above_threshold thr) (boost_fl q raw) \<noteq> []"
  let ?F = "filter_fallback thr (boost_fl q raw)"
  have F: "?F = filter (above_threshold thr) (boost_fl q raw)"
    using ne by (rule filter_fallback_nonempty)
  obtain c0 where "c0 \<in> set ?F" and "c = withReRank_fl (docCounts ?F) c0"
    using assms(1) by (auto simp: rank_fl_def set_reRank_fl)
  then have "above_threshold thr c0" and "score c0 = NaN"
    using F assms(2) by (auto simp: score_withReRank_fl)
  then show False by (simp add: above_threshold_def)
qed

section \<open>The similarity in double precision\<close>

lemma fl_add_NaN_right: "fl_add s NaN = NaN"
  by (cases s) auto

lemma fl_mul_NaN_right: "fl_mul s NaN = NaN"
  by (cases s) auto

lemma dot_fl_loop_NaN:
  "foldl (\<lambda>s i. fl_add s (fl_mul (Num (a ! i)) (js_index b i))) NaN is = NaN"
  by (induction "is") auto

lemma dot_fl_loop_out_of_range:
  "\<exists>i\<in>set is. length b \<le> i \<Longrightarrow>
   foldl (\<lambda>s i. fl_add s (fl_mul (Num (a ! i)) (js_index b i))) s is = NaN"
proof (induction "is" arbitrary: s)
  case Nil
  then show ?case by simp
next
  case (Cons i "is")
  show ?case
  proof (cases "length b \<le> i")
    case True
    then have "js_index b i = NaN" by (simp add: js_index_def)
    then show ?thesis
      by (simp add: fl_add_NaN_right js_add_NaN_right dot_fl_loop_NaN)
  next
    case False
    then have "\<exists>i\<in>set is. length b \<le> i" using Cons.prems by auto
    then show ?thesis using Cons.IH by simp
  qed
qed

lemma dot_fl_longer_query: "length b < length a \<Longrightarrow> dot_fl a b = NaN"
  unfolding dot_fl_def by (rule dot_fl_loop_out_of_range) auto

lemma dot_fl_loop_zero:
  "n \<le> length b \<Longrightarrow> \<forall>i<n. a ! i = 0 \<or> b ! i = 0 \<Longrightarrow>
   foldl (\<lambda>s i. fl_add s (fl_mul (Num (a ! i)) (js_index b i))) (Num 0) [0..<n] = Num 0"
  by (induction n) (auto simp: js_index_def)

lemma all_zeros_nth: "all_zeros a \<Longrightarrow> i < length a \<Longrightarrow> a ! i = 0"
  by (simp add: all_zeros_def list_all_length)

lemma dot_fl_zero:
  assumes "length a \<le> length b" and "all_zeros a \<or> all_zeros b"
  shows "dot_fl a b = Num 0"
proof -
  have "\<forall>i<length a. a ! i = 0 \<or> b ! i = 0"
    using assms all_zeros_nth by (metis less_le_trans)
  then show ?thesis
    unfolding dot_fl_def using assms(1) by (intro dot_fl_loop_zero)
qed

lemma norm_fl_zero: "all_zeros a \<Longrightarrow> norm_fl a = Num 0"
  by (simp add: norm_fl_def dot_fl_zero)

lemma fl_mul_zero_left: "fl_mul (Num 0) t = Num 0 \<or> fl_mul (Num 0) t = NaN"
  by (cases t) simp_all

lemma fl_mul_zero_right: "fl_mul t (Num 0) = Num 0 \<or> fl_mul t (Num 0) = NaN"
  by (cases t) simp_all

lemma fl_div_zero: "d = Num 0 \<or> d = NaN \<Longrightarrow> fl_div (Num 0) d = NaN"
  by auto

lemma cosine_fl_NaN:
  assumes "all_zeros a \<or> all_zeros b \<or> length b < length a"
  shows "cosine_fl a b = NaN"
proof (cases "length b < length a")
  case True
  then show ?thesis by (simp add: cosine_fl_def dot_fl_longer_query)
next
  case False
  then have le: "length a \<le> length b" by simp
  have z: "all_zeros a \<or> all_zeros b" using assms False by blast
  have d: "dot_fl a b = Num 0" using le z by (rule dot_fl_zero)
  have "fl_mul (norm_fl a) (norm_fl b) = Num 0 \<or> fl_mul (norm_fl a) (norm_fl b) = NaN"
    using z norm_fl_zero fl_mul_zero_left fl_mul_zero_right by metis
  then show ?thesis
    unfolding cosine_fl_def d by (rule fl_div_zero)
qed


section \<open>Claim C5: topK is sorted, bounded and stable\<close>

lemma cosine_10_10: "cosine [1, 0] [1, 0] = Num 1"
  by (simp add: cosine_def norm'_def dot_def js_index_def)

lemma cosine_10_01: "cosine [1, 0] [0, 1] = Num 0"
  by (simp add: cosine_def norm'_def dot_def js_index_def)




section \<open>Claim C2: the threshold fallback\<close>




section \<open>Claim C3: the exact file-mention boost\<close>



lemma ex_mention3: "fileMention ''compare Simple.TXT with other.md'' = Some ''simple.txt''"
  by code_simp







section \<open>Claim C6: ranking an already ranked list\<close>


lemma ex_no_mention: "fileMention ''which one'' = None"
  by code_simp






section \<open>Claim C1: classification of the model output\<close>

text \<open>
  Claim C1 says that every model output that parses to a value that is not an object,
  the literal \<open>null\<close> included, gets the \<open>invalid_model_json_shape\<close> response and never
  \<open>server_error\<close>.  The handler does so for numbers, strings, booleans and arrays
  (\<open>validate_output_primitive\<close>, \<open>validate_output_array\<close>), but not for \<open>null\<close>:
  \<open>typeof null\<close> is \<open>'object'\<close>, so the first test of line 111 lets \<open>null\<close> through, the read
  \<open>parsed.answer\<close> throws, and the outer \<open>catch\<close> answers \<open>server_error\<close>.  The theorem
  evaluates the handler on the model output \<open>null\<close>.
\<close>

theorem null_output_is_server_error:
  "catch_all (validate_output ''null'' (Inr VNull) candidates latency)
   = \<lparr>status = 500,
      body = VObj [(''error'', VStr ''server_error''),
                   (''details'', VStr (''Cannot read properties of null (reading ''
                       @ [CHR 0x27] @ ''answer'' @ [CHR 0x27] @ '')''))]\<rparr>"
  by (simp add: validate_output_def shape_invalid_def catch_all_def server_error_response_def)

section \<open>Claim C7: validation of the question\<close>

text \<open>
  Claim C7.  A question that is not all white space passes validation when it has exactly
  2000 characters and is rejected with \<open>question too long\<close> when it has 2001; a missing or
  non-string question, and an all-whitespace one, is rejected with \<open>question required\<close>;
  whenever validation rejects, the handler answers 400 with that text and has made no call
  to a provider.
\<close>

theorem question_validation:
  "(trim s \<noteq> [] \<and> length s = 2000 \<longrightarrow> validate_question (VStr s) = Inr s)
   \<and> (trim s \<noteq> [] \<and> length s = 2001 \<longrightarrow> validate_question (VStr s) = Inl ''question too long'')
   \<and> (typeof v \<noteq> ''string'' \<longrightarrow> validate_question v = Inl ''question required'')
   \<and> ((\<forall>c\<in>set s. is_js_space c) \<longrightarrow> validate_question (VStr s) = Inl ''question required'')
   \<and> (validate_question v = Inl e \<longrightarrow>
        ask vectors top_k threshold embeddings_create responses_create json_parse latency v
        = (client_error_response e, []))"
proof (intro conjI impI)
  assume "trim s \<noteq> [] \<and> length s = 2000"
  then show "validate_question (VStr s) = Inr s"
    by (auto simp: validate_question_def)
next
  assume "trim s \<noteq> [] \<and> length s = 2001"
  then show "validate_question (VStr s) = Inl ''question too long''"
    by (auto simp: validate_question_def)
next
  assume "typeof v \<noteq> ''string''"
  then show "validate_question v = Inl ''question required''"
    by (cases v) (simp_all add: validate_question_def)
next
  assume "\<forall>c\<in>set s. is_js_space c"
  then have "trim s = []" by (simp add: trim_Nil_iff)
  then show "validate_question (VStr s) = Inl ''question required''"
    by (simp add: validate_question_def)
next
  assume "validate_question v = Inl e"
  then show "ask vectors top_k threshold embeddings_create responses_create json_parse latency v
        = (client_error_response e, [])"
    by (simp add: ask_def)
qed

lemma ex_not_space: "\<not> is_js_space (CHR ''a'')"
  by code_simp

lemma ex_blank: "\<forall>c\<in>set ''   ''. is_js_space c"
  by code_simp

text \<open>
  Witness for C7: questions of 2000 and of 2001 letters, a missing question, a number, a
  blank string, and the handler on the question that is too long.
\<close>

theorem question_validation_witness:
  "validate_question (VStr (replicate 2000 (CHR ''a''))) = Inr (replicate 2000 (CHR ''a''))
   \<and> validate_question (VStr (replicate 2001 (CHR ''a''))) = Inl ''question too long''
   \<and> validate_question VUndefined = Inl ''question required''
   \<and> validate_question (VNum (Num 7)) = Inl ''question required''
   \<and> validate_question (VStr ''   '') = Inl ''question required''
   \<and> ask [] 5 (Num 0.2) (\<lambda>q. Inr [1]) (\<lambda>q cs. Inr ''{}'') (\<lambda>s. Inl ''SyntaxError'') 7
        (VStr (replicate 2001 (CHR ''a'')))
      = (client_error_response ''question too long'', [])"
proof -
  have t0: "trim (replicate 2000 (CHR ''a'')) \<noteq> [] \<and> length (replicate 2000 (CHR ''a'')) = 2000"
    by (simp add: trim_Nil_iff ex_not_space)
  have t1: "trim (replicate 2001 (CHR ''a'')) \<noteq> [] \<and> length (replicate 2001 (CHR ''a'')) = 2001"
    by (simp add: trim_Nil_iff ex_not_space)
  have a: "validate_question (VStr (replicate 2000 (CHR ''a''))) = Inr (replicate 2000 (CHR ''a''))"
    using t0 question_validation [of "replicate 2000 (CHR ''a'')"] by blast
  have b: "validate_question (VStr (replicate 2001 (CHR ''a''))) = Inl ''question too long''"
    using t1 question_validation [of "replicate 2001 (CHR ''a'')"] by blast
  have "typeof VUndefined \<noteq> ''string''" by simp
  then have c: "validate_question VUndefined = Inl ''question required''"
    using question_validation [of _ VUndefined] by blast
  have "typeof (VNum (Num 7)) \<noteq> ''string''" by simp
  then have d: "validate_question (VNum (Num 7)) = Inl ''question required''"
    using question_validation [of _ "VNum (Num 7)"] by blast
  have e: "validate_question (VStr ''   '') = Inl ''question required''"
    using ex_blank question_validation [of "''   ''"] by blast
  have f: "ask [] 5 (Num 0.2) (\<lambda>q. Inr [1]) (\<lambda>q cs. Inr ''{}'') (\<lambda>s. Inl ''SyntaxError'') 7
        (VStr (replicate 2001 (CHR ''a'')))
      = (client_error_response ''question too long'', [])"
    using b question_validation [of _ "VStr (replicate 2001 (CHR ''a''))" "''question too long''"]
    by blast
  show ?thesis
    using a b c d e f by (intro conjI)
qed

section \<open>Claim C9: the fields of used_contexts\<close>

text \<open>
  Claim C9.  With the ranked candidates as contexts: the \<open>invalid_model_json_shape\<close>
  response lists each used context with the fields \<open>doc\<close>, \<open>chunkIndex\<close> and \<open>score\<close>
  only, while the \<open>model_response_not_json\<close> response and the success response list each
  with \<open>doc\<close>, \<open>chunkIndex\<close>, \<open>score\<close> and \<open>reRankScore\<close>.
\<close>

theorem used_contexts_fields:
  assumes "cs = rank q thr raw"
  shows "(shape_invalid parsed = Inr True \<longrightarrow>
            validate_output out (Inr parsed) cs lat = Inr (invalid_shape_response parsed cs lat))
       \<and> get_prop (body (invalid_shape_response parsed cs lat)) ''used_contexts''
           = Inr (VArr (map used_context_brief cs))
       \<and> (\<forall>c\<in>set cs. written_keys (used_context_brief c) = [''doc'', ''chunkIndex'', ''score''])
       \<and> validate_output out (Inl e) cs lat = Inr (not_json_response out e cs lat)
       \<and> get_prop (body (not_json_response out e cs lat)) ''used_contexts''
           = Inr (VArr (map used_context_full cs))
       \<and> (shape_invalid parsed = Inr False \<longrightarrow>
            (\<exists>a s. validate_output out (Inr parsed) cs lat = Inr (success_response a s cs lat)))
       \<and> get_prop (body (success_response a s cs lat)) ''used_contexts''
           = Inr (VArr (map used_context_full cs))
       \<and> (\<forall>c\<in>set cs. written_keys (used_context_full c)
             = [''doc'', ''chunkIndex'', ''score'', ''reRankScore''])"
proof (intro conjI impI ballI)
  show "get_prop (body (invalid_shape_response parsed cs lat)) ''used_contexts''
      = Inr (VArr (map used_context_brief cs))"
    by (simp add: invalid_shape_response_def)
  show "get_prop (body (not_json_response out e cs lat)) ''used_contexts''
      = Inr (VArr (map used_context_full cs))"
    by (simp add: not_json_response_def)
  show "get_prop (body (success_response a s cs lat)) ''used_contexts''
      = Inr (VArr (map used_context_full cs))"
    by (simp add: success_response_def)
  show "validate_output out (Inl e) cs lat = Inr (not_json_response out e cs lat)"
    by (rule validate_output_not_json)
next
  assume "shape_invalid parsed = Inr True"
  then show "validate_output out (Inr parsed) cs lat = Inr (invalid_shape_response parsed cs lat)"
    by (rule validate_output_invalid)
next
  assume "shape_invalid parsed = Inr False"
  then show "\<exists>a s. validate_output out (Inr parsed) cs lat = Inr (success_response a s cs lat)"
    by (rule validate_output_valid)
next
  fix c assume "c \<in> set cs"
  show "written_keys (used_context_brief c) = [''doc'', ''chunkIndex'', ''score'']"
    by (rule written_keys_brief)
next
  fix c assume "c \<in> set cs"
  then have "reRankScore c \<noteq> None"
    using assms rank_has_reRankScore by blast
  then show "written_keys (used_context_full c)
      = [''doc'', ''chunkIndex'', ''score'', ''reRankScore'']"
    by (rule written_keys_full)
qed

lemma ex_rank_one:
  "rank ''which one'' (Num 0.2) [ex_cand ''A#0'' ''A'' (Num 0.5)]
   = [(ex_cand ''A#0'' ''A'' (Num 0.5))\<lparr>reRankScore := Some (Num 0.5)\<rparr>]"
  by (simp add: rank_def boost_def ex_no_mention filter_fallback_def above_threshold_def
      js_slice0_def ex_cand_def reRank_def docCounts_def withReRank_def js_sort_def)

text \<open>
  Witness for C9: the model output \<open>[1]\<close> parses to an array, which has the wrong shape; one
  ranked candidate is the used context.
\<close>

theorem used_contexts_fields_witness:
  "shape_invalid (VArr [VNum (Num 1)]) = Inr True
   \<and> validate_output ''[1]'' (Inr (VArr [VNum (Num 1)]))
        (rank ''which one'' (Num 0.2) [ex_cand ''A#0'' ''A'' (Num 0.5)]) 7
      = Inr (invalid_shape_response (VArr [VNum (Num 1)])
          (rank ''which one'' (Num 0.2) [ex_cand ''A#0'' ''A'' (Num 0.5)]) 7)
   \<and> map written_keys (map used_context_brief
        (rank ''which one'' (Num 0.2) [ex_cand ''A#0'' ''A'' (Num 0.5)]))
      = [[''doc'', ''chunkIndex'', ''score'']]
   \<and> map written_keys (map used_context_full
        (rank ''which one'' (Num 0.2) [ex_cand ''A#0'' ''A'' (Num 0.5)]))
      = [[''doc'', ''chunkIndex'', ''score'', ''reRankScore'']]"
proof -
  note t = used_contexts_fields [OF refl, of "VArr [VNum (Num 1)]" "''[1]''"
      "''which one''" "Num 0.2" "[ex_cand ''A#0'' ''A'' (Num 0.5)]" 7]
  have i: "shape_invalid (VArr [VNum (Num 1)]) = Inr True"
    by (simp add: shape_invalid_def)
  have v: "validate_output ''[1]'' (Inr (VArr [VNum (Num 1)]))
        (rank ''which one'' (Num 0.2) [ex_cand ''A#0'' ''A'' (Num 0.5)]) 7
      = Inr (invalid_shape_response (VArr [VNum (Num 1)])
          (rank ''which one'' (Num 0.2) [ex_cand ''A#0'' ''A'' (Num 0.5)]) 7)"
    using i t by blast
  have "\<forall>c\<in>set (rank ''which one'' (Num 0.2) [ex_cand ''A#0'' ''A'' (Num 0.5)]).
      written_keys (used_context_brief c) = [''doc'', ''chunkIndex'', ''score'']"
    using t by blast
  then have b: "map written_keys (map used_context_brief
        (rank ''which one'' (Num 0.2) [ex_cand ''A#0'' ''A'' (Num 0.5)]))
      = [[''doc'', ''chunkIndex'', ''score'']]"
    unfolding ex_rank_one by simp
  have "\<forall>c\<in>set (rank ''which one'' (Num 0.2) [ex_cand ''A#0'' ''A'' (Num 0.5)]).
      written_keys (used_context_full c) = [''doc'', ''chunkIndex'', ''score'', ''reRankScore'']"
    using t by blast
  then have f: "map written_keys (map used_context_full
        (rank ''which one'' (Num 0.2) [ex_cand ''A#0'' ''A'' (Num 0.5)]))
      = [[''doc'', ''chunkIndex'', ''score'', ''reRankScore'']]"
    unfolding ex_rank_one by simp
  show ?thesis
    using i v b f by (intro conjI)
qed

section \<open>Claim C8: the store is isolated from the returned candidates\<close>

text \<open>
  Claim C8.  Let the array \<open>vectors\<close> hold the addresses of the chunk records \<open>chunks\<close>.
  Then \<open>topK\<close> returns; the returned records are the candidates that \<open>topK\<close> computes
  from \<open>chunks\<close>; their addresses are pairwise distinct, were not allocated before the
  call, and none of them is an address of the store; every object that existed before the
  call is unchanged after it, after any write to the \<open>score\<close> of a returned candidate, and
  after the in-place boost pass of the handler; in particular the store still holds
  \<open>chunks\<close>.
\<close>

theorem topK_returns_fresh_copies:
  assumes "map (read_chunk h) vectors = map Some chunks"
  shows "\<exists>h1 rs h2.
      topK_heap h vectors queryEmb k = Some (h1, rs)
    \<and> map (read_cand h1) rs = map Some (topK chunks queryEmb k)
    \<and> distinct rs \<and> (\<forall>r\<in>set rs. length h \<le> r) \<and> set rs \<inter> set vectors = {}
    \<and> take (length h) h1 = h
    \<and> (\<forall>r\<in>set rs. \<forall>s. \<exists>h3. set_score h1 r s = Some h3 \<and> take (length h) h3 = h
          \<and> map (read_chunk h3) vectors = map Some chunks)
    \<and> boost_heap question h1 rs = Some h2
    \<and> take (length h) h2 = h
    \<and> map (read_chunk h2) vectors = map Some chunks"
proof -
  let ?h1 = "h @ scored_objs queryEmb vectors chunks @ candidate_objs h queryEmb vectors chunks k"
  let ?L = "length h + length vectors"
  let ?rs = "[?L..<?L + length (selected h queryEmb vectors chunks k)]"
  have t: "topK_heap h vectors queryEmb k = Some (?h1, ?rs)"
    by (rule topK_heap_closed [OF assms])
  have r: "map (read_cand ?h1) ?rs = map Some (topK chunks queryEmb k)"
    by (rule topK_heap_refines [OF assms])
  have d: "distinct ?rs" by simp
  have fresh: "\<forall>r\<in>set ?rs. length h \<le> r" by simp
  have old: "\<forall>v\<in>set vectors. v < length h"
  proof
    fix v assume "v \<in> set vectors"
    then have "read_chunk h v \<noteq> None"
      using assms by (rule map_Some_not_None [rotated])
    then show "v < length h" using read_chunk_less by blast
  qed
  have disj: "set ?rs \<inter> set vectors = {}"
  proof -
    have "a \<notin> set vectors" if "a \<in> set ?rs" for a
    proof
      assume "a \<in> set vectors"
      then have "a < length h" using old by blast
      moreover have "length h \<le> a" using that fresh by blast
      ultimately show False by simp
    qed
    then show ?thesis by blast
  qed
  have tk: "take (length h) ?h1 = h" by simp
  have le: "length h \<le> length ?h1" by simp
  have cand: "\<forall>r\<in>set ?rs. read_cand ?h1 r \<noteq> None"
  proof
    fix a assume "a \<in> set ?rs"
    with r show "read_cand ?h1 a \<noteq> None" by (rule map_Some_not_None)
  qed
  have sc: "\<forall>r\<in>set ?rs. \<forall>s. \<exists>h3. set_score ?h1 r s = Some h3 \<and> take (length h) h3 = h
      \<and> map (read_chunk h3) vectors = map Some chunks"
  proof (intro ballI allI)
    fix r s assume rin: "r \<in> set ?rs"
    then have "read_cand ?h1 r \<noteq> None" using cand by blast
    then have "\<exists>h'. set_score ?h1 r s = Some h' \<and> length h' = length ?h1
        \<and> (\<forall>a. a \<noteq> r \<longrightarrow> h' ! a = ?h1 ! a)"
      by (rule set_score_frame)
    then obtain h3 where h3: "set_score ?h1 r s = Some h3" "length h3 = length ?h1"
        "\<forall>a. a \<noteq> r \<longrightarrow> h3 ! a = ?h1 ! a"
      by (elim exE conjE)
    have f1: "\<forall>a. a \<notin> {r} \<longrightarrow> h3 ! a = ?h1 ! a" using h3(3) by simp
    have f2: "\<forall>x\<in>{r}. length h \<le> x" using rin fresh by blast
    have k3: "take (length h) h3 = h"
      by (rule frame_take [OF h3(2) f1 f2 tk le])
    have c3: "map (read_chunk h3) vectors = map Some chunks"
      using k3 assms by (rule read_chunk_take)
    show "\<exists>h3. set_score ?h1 r s = Some h3 \<and> take (length h) h3 = h
        \<and> map (read_chunk h3) vectors = map Some chunks"
      by (rule exI [of _ h3]) (intro conjI h3(1) k3 c3)
  qed
  obtain h2 where h2: "boost_heap question ?h1 ?rs = Some h2" "length h2 = length ?h1"
      "\<forall>a. a \<notin> set ?rs \<longrightarrow> h2 ! a = ?h1 ! a"
    using boost_heap_frame [OF cand, of question] by (elim exE conjE)
  have k2: "take (length h) h2 = h"
    by (rule frame_take [OF h2(2) h2(3) fresh tk le])
  have c2: "map (read_chunk h2) vectors = map Some chunks"
    using k2 assms by (rule read_chunk_take)
  show ?thesis
    by (rule exI [of _ ?h1], rule exI [of _ ?rs], rule exI [of _ h2])
       (intro conjI t r d fresh disj tk sc h2(1) k2 c2)
qed

lemma ex_store_reads:
  "map (read_chunk ex_store) [0, 1]
   = map Some [ex_chunk ''a#0'' ''a.txt'' 0 [0, 1], ex_chunk ''b#0'' ''b.txt'' 0 [1, 0]]"
  by (simp add: ex_store_def read_chunk_def)

lemma ex_topK_heap:
  "topK_heap ex_store [0, 1] [1, 0] 1
   = Some (ex_store @ [ScoredObj (Num 0) 0, ScoredObj (Num 1) 1,
                       CandObj (make_candidate (Num 1, ex_chunk ''b#0'' ''b.txt'' 0 [1, 0]))],
           [4])"
  by (simp add: topK_heap_def new_scored_def read_chunk_def ex_store_def ex_chunk_def
      cosine_10_10 cosine_10_01 score_at_def read_scored_def js_sort_def js_sub_def
      js_slice0_def new_candidate_def)

text \<open>
  Witness for C8: a store of two chunks, the query \<open>[1, 0]\<close>, \<open>k = 1\<close>, and a question
  that mentions the returned chunk's file, so that the boost writes to the copy.
\<close>

theorem topK_returns_fresh_copies_witness:
  "map (read_chunk ex_store) [0, 1]
     = map Some [ex_chunk ''a#0'' ''a.txt'' 0 [0, 1], ex_chunk ''b#0'' ''b.txt'' 0 [1, 0]]
   \<and> topK_heap ex_store [0, 1] [1, 0] 1
     = Some (ex_store @ [ScoredObj (Num 0) 0, ScoredObj (Num 1) 1,
                         CandObj (make_candidate (Num 1, ex_chunk ''b#0'' ''b.txt'' 0 [1, 0]))],
             [4])
   \<and> (\<exists>h2. boost_heap ''open b.txt''
          (ex_store @ [ScoredObj (Num 0) 0, ScoredObj (Num 1) 1,
                       CandObj (make_candidate (Num 1, ex_chunk ''b#0'' ''b.txt'' 0 [1, 0]))])
          [4] = Some h2
        \<and> take (length ex_store) h2 = ex_store)"
proof -
  from topK_returns_fresh_copies [OF ex_store_reads, of "[1, 0]" 1 "''open b.txt''"]
  obtain h1 rs h2 where t: "topK_heap ex_store [0, 1] [1, 0] 1 = Some (h1, rs)"
    and b: "boost_heap ''open b.txt'' h1 rs = Some h2"
    and k: "take (length ex_store) h2 = ex_store"
    by (elim exE conjE)
  from t have h1: "h1 = ex_store @ [ScoredObj (Num 0) 0, ScoredObj (Num 1) 1,
      CandObj (make_candidate (Num 1, ex_chunk ''b#0'' ''b.txt'' 0 [1, 0]))]"
    and rs: "rs = [4]"
    by (simp_all only: ex_topK_heap option.inject prod.inject)
  have "\<exists>h2. boost_heap ''open b.txt''
          (ex_store @ [ScoredObj (Num 0) 0, ScoredObj (Num 1) 1,
                       CandObj (make_candidate (Num 1, ex_chunk ''b#0'' ''b.txt'' 0 [1, 0]))])
          [4] = Some h2
        \<and> take (length ex_store) h2 = ex_store"
    using b k unfolding h1 rs by (intro exI [of _ h2] conjI)
  then show ?thesis
    using ex_store_reads ex_topK_heap by (intro conjI)
qed

section \<open>Claim C4: the document-frequency re-rank\<close>



















section \<open>Claim C10: the unguarded similarity\<close>

text \<open>Roundings of the numbers of the examples.\<close>

lemma rd_1: "round_double 1 = Num 1"
  using round_double_eqI [of 0 1 "-52" "2 ^ 52"] by simp

lemma rd_small: "round_double (1 / 2 ^ 600) = Num (1 / 2 ^ 600)"
  using round_double_eqI [of "-600" "1 / 2 ^ 600" "-652" "2 ^ 52"]
  by (simp add: power_int_minus field_simps)

lemma rd_underflow: "round_double (1 / 2 ^ 1200) = Num 0"
  using round_double_eqI [of "-1200" "1 / 2 ^ 1200" "-1074" 0]
  by (simp add: power_int_minus field_simps)

text \<open>
  The source of \<open>cosine\<close> has no \<open>throw\<close>, and every operation in it is arithmetic on
  numbers or an array read, which gives \<open>undefined\<close> past the end: \<open>cosine_fl\<close> has a number
  as its value for every pair of vectors.  What remains to prove is which value.
\<close>

text \<open>
  Claim C10, as amended.  For every pair of embeddings: if either vector consists of zeros
  only (the empty vector included), or the query embedding is longer than the stored one,
  the score is NaN.  A NaN-scored candidate never satisfies the threshold filter; if one
  is in the ranked output, then the filter kept nothing and the output was built from the
  first \<open>min(3, n)\<close> raw candidates.
\<close>

theorem cosine_double_NaN:
  "(all_zeros a \<or> all_zeros b \<or> length b < length a \<longrightarrow> cosine_fl a b = NaN)
   \<and> (score c = NaN \<longrightarrow> \<not> above_threshold thr c)
   \<and> (c \<in> set (rank_fl q thr raw) \<and> score c = NaN
        \<longrightarrow> filter (above_threshold thr) (boost_fl q raw) = []
          \<and> filter_fallback thr (boost_fl q raw)
              = take (min 3 (length raw)) (boost_fl q raw))"
proof (intro conjI impI)
  assume "all_zeros a \<or> all_zeros b \<or> length b < length a"
  then show "cosine_fl a b = NaN" by (rule cosine_fl_NaN)
next
  assume "score c = NaN"
  then show "\<not> above_threshold thr c" by (simp add: above_threshold_def)
next
  assume a: "c \<in> set (rank_fl q thr raw) \<and> score c = NaN"
  then show e: "filter (above_threshold thr) (boost_fl q raw) = []"
    using NaN_only_by_fallback_fl by blast
  show "filter_fallback thr (boost_fl q raw) = take (min 3 (length raw)) (boost_fl q raw)"
    using e by (simp add: filter_fallback_empty length_boost_fl)
qed

text \<open>
  Witness for C10: a zero query vector, a zero stored vector, a query longer than the
  stored embedding, and a NaN-scored candidate that is in the output because nothing
  reached the threshold.
\<close>

theorem cosine_double_NaN_witness:
  "all_zeros [0, 0]
   \<and> cosine_fl [0, 0] [1, 2] = NaN
   \<and> cosine_fl [1, 2] [0, 0] = NaN
   \<and> cosine_fl [1, 2] [3] = NaN
   \<and> (ex_cand ''z#0'' ''z.txt'' NaN)\<lparr>reRankScore := Some NaN\<rparr>
        \<in> set (rank_fl ''which one'' (Num 0.25) [ex_cand ''z#0'' ''z.txt'' NaN])
   \<and> filter (above_threshold (Num 0.25)) (boost_fl ''which one'' [ex_cand ''z#0'' ''z.txt'' NaN])
       = []"
proof -
  have z: "all_zeros [0, 0]" by (simp add: all_zeros_def)
  have c1: "cosine_fl [0, 0] [1, 2] = NaN"
    using z cosine_double_NaN [of "[0, 0]" "[1, 2]"] by blast
  have c2: "cosine_fl [1, 2] [0, 0] = NaN"
    using z cosine_double_NaN [of "[1, 2]" "[0, 0]"] by blast
  have "length [3::real] < length [1, 2::real]" by simp
  then have c3: "cosine_fl [1, 2] [3] = NaN"
    using cosine_double_NaN [of "[1, 2]" "[3]"] by blast
  have m: "(ex_cand ''z#0'' ''z.txt'' NaN)\<lparr>reRankScore := Some NaN\<rparr>
        \<in> set (rank_fl ''which one'' (Num 0.25) [ex_cand ''z#0'' ''z.txt'' NaN])"
    by (simp add: rank_fl_def boost_fl_def ex_no_mention filter_fallback_def
        above_threshold_def js_slice0_def ex_cand_def reRank_fl_def withReRank_fl_def
        js_sort_def)
  have s: "score ((ex_cand ''z#0'' ''z.txt'' NaN)\<lparr>reRankScore := Some NaN\<rparr>) = NaN"
    by (simp add: ex_cand_def)
  have f: "filter (above_threshold (Num 0.25))
        (boost_fl ''which one'' [ex_cand ''z#0'' ''z.txt'' NaN]) = []"
    using m s cosine_double_NaN [of _ _
        "(ex_cand ''z#0'' ''z.txt'' NaN)\<lparr>reRankScore := Some NaN\<rparr>"
        "Num 0.25" "''which one''" "[ex_cand ''z#0'' ''z.txt'' NaN]"]
    by blast
  show ?thesis
    using z c1 c2 c3 m f by (intro conjI)
qed

text \<open>
  Counterexample to C10 as stated (a vector of zero norm scores NaN): the norm of the
  non-zero vector \<open>[2 ^ -600]\<close> is computed as 0, because its square underflows, and its
  score against \<open>[1]\<close> is \<open>2 ^ -600 / 0\<close>, which is Infinity and not NaN.
\<close>

theorem cosine_underflow_counterexample:
  "norm_fl [1 / 2 ^ 600] = Num 0 \<and> cosine_fl [1 / 2 ^ 600] [1] = PInf"
  by (simp add: cosine_fl_def norm_fl_def dot_fl_def js_index_def rd_1 rd_small [simplified]
      rd_underflow [simplified])

end
